theory Spec2Isabelle
  imports Complex_Main "HOL-Library.Word" "HOL-Library.Signed_Division"
begin

section \<open>Replay data\<close>

text \<open>
  The replay viewer of \<^verbatim>\<open>ai_animation/src/main.js\<close> keeps its playback state in
  module-level variables and drives it from browser callbacks.  Strings are lists of
  code units; a message record carries the four fields the viewer reads, with
  \<^verbatim>\<open>time_sent\<close> a whole number.
\<close>

record msg =
  sender :: string
  recipient :: string
  time_sent :: int
  message :: string

section \<open>Chat windows\<close>

text \<open>
  \<^verbatim>\<open>createChatWindow\<close> stores, per power, the container of displayed message elements and
  the set \<^verbatim>\<open>seenMessages\<close>.  An element is kept by what \<^verbatim>\<open>addMessageToChat\<close> writes into
  it: the class name, the sender's class and label (global chat only), the text and the
  phase name.  The map \<open>chat_windows\<close> holds the own properties of the object
  \<^verbatim>\<open>chatWindows\<close>; they are created under the names of the powers and \<^verbatim>\<open>GLOBAL\<close>.
\<close>

record chat_entry =
  className :: string
  sender_class :: "string option"
  sender_label :: "string option"
  body :: string
  time_label :: string

record chat_window =
  messagesContainer :: "chat_entry list"
  isGlobal :: bool
  seenMessages :: "string set"

type_synonym chat_windows = "string \<rightharpoonup> chat_window"

text \<open>
  The exceptions of the viewer and of the phase controller: the error \<^verbatim>\<open>_setPhase\<close> throws
  for an index outside the replay (the index and the number of phases), and the type
  error of reading a property of \<^verbatim>\<open>undefined\<close> or calling what is not a function.
\<close>

datatype error = InvalidPhaseIndex int nat | TypeError

text \<open>
  \<^verbatim>\<open>chatWindows\<close> is a plain object (\<^verbatim>\<open>chatWindows = {}\<close>), so the read
  \<^verbatim>\<open>chatWindows[targetPower]\<close> yields an own property when there is one, and otherwise
  follows the prototype chain: under the name of a member of \<^verbatim>\<open>Object.prototype\<close> it
  yields that member, a function or an object without \<^verbatim>\<open>seenMessages\<close>, and under
  every other name \<^verbatim>\<open>undefined\<close>.
\<close>

definition Object_prototype_keys :: "string list" where
  "Object_prototype_keys =
     [''constructor'', ''hasOwnProperty'', ''isPrototypeOf'', ''propertyIsEnumerable'',
      ''toLocaleString'', ''toString'', ''valueOf'', ''__proto__'', ''__defineGetter__'',
      ''__defineSetter__'', ''__lookupGetter__'', ''__lookupSetter__'']"

datatype property = Own chat_window | Inherited | Absent

definition get_window :: "chat_windows \<Rightarrow> string \<Rightarrow> property" where
  "get_window cws k =
     (case cws k of
        Some w \<Rightarrow> Own w
      | None \<Rightarrow> if k \<in> set Object_prototype_keys then Inherited else Absent)"

text \<open>Decimal rendering of an integer, as a template literal prints a whole number.\<close>

fun digit_char :: "nat \<Rightarrow> char" where
  "digit_char n = char_of (48 + n)"

function nat_to_string :: "nat \<Rightarrow> string" where
  "nat_to_string n =
     (if n < 10 then [digit_char n] else nat_to_string (n div 10) @ [digit_char (n mod 10)])"
  by pat_completeness auto
termination
  by (relation "measure id") auto

definition int_to_string :: "int \<Rightarrow> string" where
  "int_to_string i = (if i < 0 then CHR ''-'' # nat_to_string (nat (- i)) else nat_to_string (nat i))"

definition createChatWindow :: "string \<Rightarrow> bool \<Rightarrow> chat_windows \<Rightarrow> chat_windows" where
  "createChatWindow pw isG cws =
     cws(pw \<mapsto> \<lparr>messagesContainer = [], isGlobal = isG, seenMessages = {}\<rparr>)"

definition createChatWindows :: "string \<Rightarrow> chat_windows" where
  "createChatWindows currentPower =
     (let powers = [''AUSTRIA'', ''ENGLAND'', ''GERMANY'', ''ITALY'', ''RUSSIA'', ''TURKEY''];
          otherPowers = filter (\<lambda>pw. pw \<noteq> currentPower) powers
      in foldl (\<lambda>cws pw. createChatWindow pw False cws)
           (createChatWindow ''GLOBAL'' True Map.empty) otherPowers)"

text \<open>The bucket a message belongs to, computed alike by \<^verbatim>\<open>addMessageToChat\<close> and
  \<^verbatim>\<open>animateHeadNod\<close>.\<close>

definition targetPower :: "string \<Rightarrow> msg \<Rightarrow> string" where
  "targetPower currentPower m =
     (if recipient m = ''GLOBAL'' then ''GLOBAL''
      else if sender m = currentPower then recipient m else sender m)"

definition msgId :: "msg \<Rightarrow> string" where
  "msgId m = sender m @ ''-'' @ recipient m @ ''-'' @ int_to_string (time_sent m) @ ''-'' @ message m"

definition lower_char :: "char \<Rightarrow> char" where
  "lower_char c =
     (if (65::nat) \<le> of_char c \<and> of_char c \<le> (90::nat) then char_of (of_char c + (32::nat)) else c)"

definition upper_char :: "char \<Rightarrow> char" where
  "upper_char c =
     (if (97::nat) \<le> of_char c \<and> of_char c \<le> (122::nat) then char_of (of_char c - (32::nat)) else c)"

definition toLowerCase :: "string \<Rightarrow> string" where
  "toLowerCase s = map lower_char s"

definition toUpperCase :: "string \<Rightarrow> string" where
  "toUpperCase s = map upper_char s"

definition message_element :: "string \<Rightarrow> msg \<Rightarrow> string \<Rightarrow> chat_entry" where
  "message_element currentPower m phaseName =
     (if targetPower currentPower m = ''GLOBAL''
      then \<lparr>className = ''chat-message message-incoming'',
            sender_class = Some (''power-'' @ toLowerCase (sender m)),
            sender_label = Some (sender m), body = message m, time_label = phaseName\<rparr>
      else \<lparr>className = (if sender m = currentPower then ''chat-message message-outgoing''
                          else ''chat-message message-incoming''),
            sender_class = None, sender_label = None, body = message m, time_label = phaseName\<rparr>)"

text \<open>
  \<^verbatim>\<open>addMessageToChat(msg, phaseName)\<close>: the result is \<^verbatim>\<open>undefined\<close> (\<open>None\<close>) when
  \<^verbatim>\<open>chatWindows[targetPower]\<close> is \<^verbatim>\<open>undefined\<close>, \<^verbatim>\<open>false\<close> when the identifier was seen,
  \<^verbatim>\<open>true\<close> after the element was appended.  When the read yields a member of
  \<^verbatim>\<open>Object.prototype\<close> the guard \<^verbatim>\<open>if (!chatWindows[targetPower]) return\<close> lets it pass and
  \<^verbatim>\<open>chatWindows[targetPower].seenMessages.has(msgId)\<close> throws the type error, before
  anything is written.
\<close>

definition addMessageToChat ::
  "string \<Rightarrow> msg \<Rightarrow> string \<Rightarrow> chat_windows \<Rightarrow> error + bool option \<times> chat_windows" where
  "addMessageToChat currentPower m phaseName cws =
     (let tp = targetPower currentPower m in
      case get_window cws tp of
        Absent \<Rightarrow> Inr (None, cws)
      | Inherited \<Rightarrow> Inl TypeError
      | Own w \<Rightarrow>
          if msgId m \<in> seenMessages w then Inr (Some False, cws)
          else Inr (Some True,
                cws(tp \<mapsto> w\<lparr>seenMessages := insert (msgId m) (seenMessages w),
                              messagesContainer := messagesContainer w
                                @ [message_element currentPower m phaseName]\<rparr>)))"


section \<open>Phases and unit strings\<close>

text \<open>
  A phase as the viewer reads it: its name, its messages, and the entries of
  \<^verbatim>\<open>state.units\<close> in the order \<^verbatim>\<open>Object.entries\<close> yields them.  A missing message list
  or a missing unit table behaves as an empty one at every place the viewer tests them.
\<close>

record phase =
  name :: string
  messages :: "msg list"
  units :: "(string \<times> string list) list"

text \<open>
  The pattern \<^verbatim>\<open>/^([AF])\s+(.+)$/\<close>: a type letter, a maximal run of white space, then
  at least one character up to the end, none of them a line terminator.  When nothing
  follows the white space the run gives back its last character to the second group.
  Code units below 256 are covered.
\<close>

definition is_space :: "char \<Rightarrow> bool" where
  "is_space c \<longleftrightarrow> (of_char c :: nat) \<in> {9, 10, 11, 12, 13, 32, 160}"

definition is_line_terminator :: "char \<Rightarrow> bool" where
  "is_line_terminator c \<longleftrightarrow> (of_char c :: nat) \<in> {10, 13}"

definition unit_match :: "string \<Rightarrow> (char \<times> string) option" where
  "unit_match unitStr =
     (case unitStr of
        [] \<Rightarrow> None
      | t # rest \<Rightarrow>
          if t \<noteq> CHR ''A'' \<and> t \<noteq> CHR ''F'' then None
          else
            let ws = takeWhile is_space rest; r = dropWhile is_space rest in
            if ws = [] then None
            else if r \<noteq> [] then
              (if list_ex is_line_terminator r then None else Some (t, r))
            else if 2 \<le> length ws \<and> \<not> is_line_terminator (last ws) then Some (t, [last ws])
            else None)"

section \<open>Coordinates\<close>

record province_data =
  label_x :: real
  label_y :: real
  isSupplyCenter :: bool
  hasCoordinates :: bool

text \<open>\<^verbatim>\<open>coordinateData.provinces\<close> by entries; \<open>None\<close> before the coordinate file arrived.\<close>

type_synonym coordinate_data = "(string \<times> province_data) list option"

text \<open>A position object: \<^verbatim>\<open>z\<close> is absent when a label object is returned as it is.\<close>

record pos =
  pos_x :: real
  pos_y :: real
  pos_z :: "real option"

fun replace_first :: "char \<Rightarrow> char \<Rightarrow> string \<Rightarrow> string" where
  "replace_first a b [] = []"
| "replace_first a b (c # cs) = (if c = a then b # cs else c # replace_first a b cs)"

text \<open>The 32-bit rolling hash of \<^verbatim>\<open>hashStringToPosition\<close>; \<^verbatim>\<open>%\<close> truncates towards zero.\<close>

definition hash_step :: "32 word \<Rightarrow> char \<Rightarrow> 32 word" where
  "hash_step h c = push_bit 5 h - h + of_nat (of_char c)"

definition string_hash :: "string \<Rightarrow> 32 word" where
  "string_hash str = foldl hash_step 0 str"

definition hashStringToPosition :: "string \<Rightarrow> pos" where
  "hashStringToPosition str =
     (let hash = sint (string_hash str);
          x = (hash smod 800) - 400;
          z = ((hash div 2 ^ 8) smod 800) - 400
      in \<lparr>pos_x = of_int x, pos_y = 0, pos_z = Some (of_int z)\<rparr>)"

definition getProvincePosition :: "coordinate_data \<Rightarrow> string \<Rightarrow> pos" where
  "getProvincePosition cd loc =
     (let normalized = replace_first (CHR ''/'') (CHR ''_'') (toUpperCase loc);
          base = takeWhile (\<lambda>c. c \<noteq> CHR ''_'') normalized;
          fallback = (let p = hashStringToPosition loc
                      in \<lparr>pos_x = pos_x p, pos_y = pos_y p, pos_z = map_option (\<lambda>z. z + 100) (pos_z p)\<rparr>)
      in case cd of
           None \<Rightarrow> fallback
         | Some provinces \<Rightarrow>
             (case map_of provinces normalized of
                Some d \<Rightarrow> \<lparr>pos_x = label_x d, pos_y = 10, pos_z = Some (label_y d)\<rparr>
              | None \<Rightarrow>
                  (case map_of provinces base of
                     Some d \<Rightarrow> \<lparr>pos_x = label_x d, pos_y = label_y d, pos_z = None\<rparr>
                   | None \<Rightarrow> fallback)))"

section \<open>Unit transition planning\<close>

text \<open>
  A scene object with the \<^verbatim>\<open>userData\<close> the viewer reads back: a unit group (power, type
  letter, location) or a supply-centre group (province), each with its position.
\<close>

datatype mesh =
  UnitGroup string char string "real \<times> real \<times> real option"
  | SupplyCenterGroup string "real \<times> real \<times> real option"

fun userData_isSupplyCenter :: "mesh \<Rightarrow> bool" where
  "userData_isSupplyCenter (UnitGroup _ _ _ _) = False"
| "userData_isSupplyCenter (SupplyCenterGroup _ _) = True"

fun position_set :: "real \<times> real \<times> real option \<Rightarrow> mesh \<Rightarrow> mesh" where
  "position_set p (UnitGroup pw ty loc _) = UnitGroup pw ty loc p"
| "position_set p (SupplyCenterGroup prov _) = SupplyCenterGroup prov p"

record anim =
  object :: mesh
  startPos :: pos
  endPos :: pos
  startTime :: nat
  duration :: nat

definition animationDuration :: nat where
  "animationDuration = 1500"

definition createUnitMesh :: "string \<Rightarrow> char \<Rightarrow> string \<Rightarrow> mesh" where
  "createUnitMesh pw ty loc = UnitGroup pw ty loc (0, 0, Some 0)"

text \<open>
  \<^verbatim>\<open>previousUnitPositions\<close> is an object whose keys all contain a hyphen, so they are
  enumerated in insertion order; assigning an existing key keeps its place.
\<close>

fun obj_assign :: "string \<Rightarrow> 'v \<Rightarrow> (string \<times> 'v) list \<Rightarrow> (string \<times> 'v) list" where
  "obj_assign k v [] = [(k, v)]"
| "obj_assign k v ((k', v') # kvs) =
     (if k' = k then (k, v) # kvs else (k', v') # obj_assign k v kvs)"

definition unit_key :: "string \<Rightarrow> char \<Rightarrow> string \<Rightarrow> string" where
  "unit_key pw ty loc = pw @ ''-'' @ [ty] @ ''-'' @ loc"

definition key_prefix :: "string \<Rightarrow> char \<Rightarrow> string" where
  "key_prefix pw ty = pw @ ''-'' @ [ty]"

definition startsWith :: "string \<Rightarrow> string \<Rightarrow> bool" where
  "startsWith s p \<longleftrightarrow> take (length p) s = p"

definition record_previous ::
  "coordinate_data \<Rightarrow> string \<Rightarrow> (string \<times> pos) list \<Rightarrow> string \<Rightarrow> (string \<times> pos) list" where
  "record_previous cd pw tbl unitStr =
     (case unit_match unitStr of
        None \<Rightarrow> tbl
      | Some (ty, loc) \<Rightarrow> obj_assign (unit_key pw ty loc) (getProvincePosition cd loc) tbl)"

definition previousUnitPositions ::
  "coordinate_data \<Rightarrow> (string \<times> string list) list \<Rightarrow> (string \<times> pos) list" where
  "previousUnitPositions cd prevUnits =
     foldl (\<lambda>tbl (pw, unitArr). foldl (record_previous cd pw) tbl unitArr) [] prevUnits"

text \<open>The search loop: the first key that starts with the prefix is taken and deleted.\<close>

fun take_match :: "string \<Rightarrow> (string \<times> pos) list \<Rightarrow> (pos \<times> (string \<times> pos) list) option" where
  "take_match pre [] = None"
| "take_match pre ((k, v) # kvs) =
     (if startsWith k pre then Some (v, kvs)
      else map_option (\<lambda>(p, rest). (p, (k, v) # rest)) (take_match pre kvs))"

text \<open>
  The planner's accumulator: the table of unclaimed previous positions, the animations
  pushed so far, the meshes pushed so far, and for every animation whether a match was
  found (the local \<^verbatim>\<open>matchFound\<close>).
\<close>

record plan_acc =
  acc_table :: "(string \<times> pos) list"
  acc_anims :: "anim list"
  acc_meshes :: "mesh list"
  acc_found :: "bool list"

definition plan_unit :: "coordinate_data \<Rightarrow> nat \<Rightarrow> string \<Rightarrow> plan_acc \<Rightarrow> string \<Rightarrow> plan_acc" where
  "plan_unit cd tnow pw acc unitStr =
     (case unit_match unitStr of
        None \<Rightarrow> acc
      | Some (unitType, location) \<Rightarrow>
          let currentPos = getProvincePosition cd location;
              found = take_match (key_prefix pw unitType) (acc_table acc);
              start = (case found of
                         Some (p, _) \<Rightarrow> p
                       | None \<Rightarrow> \<lparr>pos_x = pos_x currentPos, pos_y = - 20, pos_z = pos_z currentPos\<rparr>);
              tbl = (case found of Some (_, rest) \<Rightarrow> rest | None \<Rightarrow> acc_table acc);
              unitMesh = position_set (pos_x start, 10, pos_z start)
                           (createUnitMesh (toUpperCase pw) unitType location)
          in \<lparr>acc_table = tbl,
              acc_anims = acc_anims acc @
                [\<lparr>object = unitMesh, startPos = start, endPos = currentPos,
                  startTime = tnow, duration = animationDuration\<rparr>],
              acc_meshes = acc_meshes acc @ [unitMesh],
              acc_found = acc_found acc @ [found \<noteq> None]\<rparr>)"

definition plan_units ::
  "coordinate_data \<Rightarrow> nat \<Rightarrow> (string \<times> string list) list \<Rightarrow> (string \<times> string list) list \<Rightarrow> plan_acc" where
  "plan_units cd tnow currUnits prevUnits =
     foldl (\<lambda>acc (pw, unitArr). foldl (plan_unit cd tnow pw) acc unitArr)
       \<lparr>acc_table = previousUnitPositions cd prevUnits, acc_anims = [], acc_meshes = [], acc_found = []\<rparr>
       currUnits"


section \<open>The page state and the browser's timers\<close>

text \<open>
  The module-level variables of the viewer, together with what the browser holds for
  it: the pending timeouts (handle, due time and callback closure), the clock read by
  \<^verbatim>\<open>Date.now()\<close>, and the \<^verbatim>\<open>disabled\<close> flags of the controls.  \<open>effects\<close> is the
  observation log: the calls of \<^verbatim>\<open>animateHeadNod\<close> and of \<^verbatim>\<open>advanceToNextPhase\<close>, latest
  last.
\<close>

datatype callback = AdvanceCb | ShowNextCb string "msg list" nat

record timer =
  handle :: nat
  due :: nat
  callback :: callback

datatype effect = HeadNod msg | AdvanceRun

record pstate =
  gameData :: "phase list option"
  currentPhaseIndex :: int
  coordinateData :: coordinate_data
  unitMeshes :: "mesh list"
  isPlaying :: bool
  playbackSpeed :: nat
  playbackTimer :: "nat option"
  unitAnimations :: "anim list"
  chatWindows :: chat_windows
  currentPower :: string
  messagesPlaying :: bool
  prevBtn_disabled :: bool
  nextBtn_disabled :: bool
  playBtn_disabled :: bool
  speedSelector_disabled :: bool
  timers :: "timer list"
  next_handle :: nat
  now :: nat
  effects :: "effect list"

definition setTimeout :: "callback \<Rightarrow> nat \<Rightarrow> pstate \<Rightarrow> nat \<times> pstate" where
  "setTimeout cb delay s =
     (next_handle s,
      s\<lparr>timers := timers s @ [\<lparr>handle = next_handle s, due = now s + delay, callback = cb\<rparr>],
        next_handle := Suc (next_handle s)\<rparr>)"

definition clearTimeout :: "nat \<Rightarrow> pstate \<Rightarrow> pstate" where
  "clearTimeout h s = s\<lparr>timers := filter (\<lambda>t. handle t \<noteq> h) (timers s)\<rparr>"

text \<open>
  The camera, the scene graph, the leaderboard, the info panel and the colours of the
  supply-centre markers are written by the viewer but never read back by the code
  below; they are left out of the state.
\<close>

text \<open>\<^verbatim>\<open>playbackTimer = setTimeout(() => advanceToNextPhase(), playbackSpeed)\<close>\<close>

definition arm_advance :: "pstate \<Rightarrow> pstate" where
  "arm_advance s = (let (h, s') = setTimeout AdvanceCb (playbackSpeed s) s in s'\<lparr>playbackTimer := Some h\<rparr>)"

text \<open>The test \<^verbatim>\<open>if (playbackTimer)\<close>: a handle other than zero.\<close>

definition timer_set :: "nat option \<Rightarrow> bool" where
  "timer_set t = (case t of None \<Rightarrow> False | Some h \<Rightarrow> h \<noteq> 0)"

definition animateHeadNod :: "msg \<Rightarrow> pstate \<Rightarrow> pstate" where
  "animateHeadNod m s = s\<lparr>effects := effects s @ [HeadNod m]\<rparr>"

definition relevantMessages :: "string \<Rightarrow> phase \<Rightarrow> msg list" where
  "relevantMessages cp ph =
     sort_key time_sent
       (filter (\<lambda>m. sender m = cp \<or> recipient m = cp \<or> recipient m = ''GLOBAL'') (messages ph))"

text \<open>
  A function of the viewer either returns, \<open>Inr\<close> the state it leaves, or ends by an
  exception, \<open>Inl\<close> the error with the state at the throw.  No function of the playback
  path catches an exception: one thrown in a callback or an event handler ends it, and
  the page goes on from the state at the throw.
\<close>

type_synonym completion = "(error \<times> pstate) + pstate"

definition state_of :: "completion \<Rightarrow> pstate" where
  "state_of r = (case r of Inl (e, s) \<Rightarrow> s | Inr s \<Rightarrow> s)"

definition thrown :: "completion \<Rightarrow> error option" where
  "thrown r = (case r of Inl (e, s) \<Rightarrow> Some e | Inr s \<Rightarrow> None)"

text \<open>One reveal: \<^verbatim>\<open>addMessageToChat\<close>, then the head nod when the message was new.\<close>

definition reveal :: "string \<Rightarrow> msg \<Rightarrow> pstate \<Rightarrow> completion" where
  "reveal phaseName m s =
     (case addMessageToChat (currentPower s) m phaseName (chatWindows s) of
        Inl e \<Rightarrow> Inl (e, s)
      | Inr (isNew, cws) \<Rightarrow>
          let s1 = s\<lparr>chatWindows := cws\<rparr>
          in Inr (if isNew = Some True then animateHeadNod m s1 else s1))"

text \<open>
  The closure \<^verbatim>\<open>showNext\<close> over the phase name, the sorted messages and \<^verbatim>\<open>index\<close>.
  When \<^verbatim>\<open>addMessageToChat\<close> throws, the statements after it, among them the
  \<^verbatim>\<open>setTimeout\<close> of the next step, are not reached.
\<close>

definition showNext :: "string \<Rightarrow> msg list \<Rightarrow> nat \<Rightarrow> pstate \<Rightarrow> completion" where
  "showNext phaseName rel index s =
     (if length rel \<le> index then
        (let s1 = s\<lparr>messagesPlaying := False\<rparr>
         in Inr (if unitAnimations s1 = [] \<and> isPlaying s1 then arm_advance s1 else s1))
      else
        (case reveal phaseName (rel ! index) s of
           Inl x \<Rightarrow> Inl x
         | Inr s1 \<Rightarrow>
             Inr (snd (setTimeout (ShowNextCb phaseName rel (Suc index)) (playbackSpeed s1 * 3) s1))))"

text \<open>\<^verbatim>\<open>relevantMessages.forEach\<close> of the mode that shows all messages at once.\<close>

fun forEach_reveal :: "string \<Rightarrow> msg list \<Rightarrow> pstate \<Rightarrow> completion" where
  "forEach_reveal phaseName [] s = Inr s"
| "forEach_reveal phaseName (m # ms) s =
     (case reveal phaseName m s of
        Inl x \<Rightarrow> Inl x
      | Inr s1 \<Rightarrow> forEach_reveal phaseName ms s1)"

definition updateChatWindows :: "phase \<Rightarrow> bool \<Rightarrow> pstate \<Rightarrow> completion" where
  "updateChatWindows ph stepMessages s =
     (if messages ph = [] then Inr (s\<lparr>messagesPlaying := False\<rparr>)
      else
        let rel = relevantMessages (currentPower s) ph in
        if \<not> stepMessages then
          (case forEach_reveal (name ph) rel s of
             Inl x \<Rightarrow> Inl x
           | Inr s1 \<Rightarrow> Inr (s1\<lparr>messagesPlaying := False\<rparr>))
        else showNext (name ph) rel 0 (s\<lparr>messagesPlaying := True\<rparr>))"

definition animateUnitsForPhase :: "phase \<Rightarrow> phase \<Rightarrow> pstate \<Rightarrow> pstate" where
  "animateUnitsForPhase currentPhase previousPhase s =
     (let acc = plan_units (coordinateData s) (now s) (units currentPhase) (units previousPhase)
      in s\<lparr>unitAnimations := acc_anims acc, unitMeshes := unitMeshes s @ acc_meshes acc\<rparr>)"

definition previous_index :: "int \<Rightarrow> phase list \<Rightarrow> int" where
  "previous_index index phases = (if 0 < index then index - 1 else int (length phases) - 1)"

text \<open>
  \<^verbatim>\<open>displayPhaseWithAnimation\<close> returns at its guard when there is no replay or the index
  is outside it.  After \<^verbatim>\<open>updateChatWindows\<close> it writes the info panel only.
\<close>

definition displayPhaseWithAnimation :: "int \<Rightarrow> pstate \<Rightarrow> completion" where
  "displayPhaseWithAnimation index s =
     (case gameData s of
        None \<Rightarrow> Inr s
      | Some phases \<Rightarrow>
          if index < 0 \<or> int (length phases) \<le> index then Inr s
          else
            let currentPhase = phases ! nat index;
                previousPhase = phases ! nat (previous_index index phases);
                s1 = s\<lparr>unitMeshes := filter userData_isSupplyCenter (unitMeshes s)\<rparr>
            in if messages currentPhase \<noteq> [] then updateChatWindows currentPhase True s1
               else Inr (animateUnitsForPhase currentPhase previousPhase s1))"

text \<open>
  \<^verbatim>\<open>advanceToNextPhase\<close> reads \<^verbatim>\<open>gameData.phases\<close> without a guard: with no replay that is
  a type error.  Its call is entered in the observation log first.
\<close>

definition advanceToNextPhase :: "pstate \<Rightarrow> completion" where
  "advanceToNextPhase s =
     (let s0 = s\<lparr>effects := effects s @ [AdvanceRun]\<rparr> in
      case gameData s0 of
        None \<Rightarrow> Inl (TypeError, s0)
      | Some phases \<Rightarrow>
          let s1 = (if int (length phases) - 1 \<le> currentPhaseIndex s0
                    then s0\<lparr>currentPhaseIndex := 0\<rparr>
                    else s0\<lparr>currentPhaseIndex := currentPhaseIndex s0 + 1\<rparr>)
          in displayPhaseWithAnimation (currentPhaseIndex s1) s1)"

text \<open>
  \<^verbatim>\<open>togglePlayback\<close>.  Switching on reads \<^verbatim>\<open>phase.messages\<close> of
  \<^verbatim>\<open>gameData.phases[currentPhaseIndex]\<close>, a type error when the index is outside the
  replay.
\<close>

definition togglePlayback :: "pstate \<Rightarrow> completion" where
  "togglePlayback s =
     (case gameData s of
        None \<Rightarrow> Inr s
      | Some phases \<Rightarrow>
          if length phases \<le> 1 then Inr s
          else
            let s1 = s\<lparr>isPlaying := \<not> isPlaying s\<rparr> in
            if isPlaying s1 then
              (let s2 = s1\<lparr>prevBtn_disabled := True, nextBtn_disabled := True\<rparr> in
               if currentPhaseIndex s2 < 0 \<or> int (length phases) \<le> currentPhaseIndex s2
               then Inl (TypeError, s2)
               else
                 let ph = phases ! nat (currentPhaseIndex s2) in
                 if messages ph \<noteq> [] then updateChatWindows ph True s2
                 else displayPhaseWithAnimation (currentPhaseIndex s2) s2)
            else
              (let s2 = (if timer_set (playbackTimer s1)
                         then (clearTimeout (the (playbackTimer s1)) s1)\<lparr>playbackTimer := None\<rparr>
                         else s1)
               in Inr (s2\<lparr>unitAnimations := [], messagesPlaying := False,
                          prevBtn_disabled := False, nextBtn_disabled := False\<rparr>)))"

definition prevBtn_click :: "pstate \<Rightarrow> completion" where
  "prevBtn_click s =
     (if 0 < currentPhaseIndex s
      then (let s1 = s\<lparr>currentPhaseIndex := currentPhaseIndex s - 1\<rparr>
            in displayPhaseWithAnimation (currentPhaseIndex s1) s1)
      else Inr s)"

definition nextBtn_click :: "pstate \<Rightarrow> completion" where
  "nextBtn_click s =
     (case gameData s of
        None \<Rightarrow> Inr s
      | Some phases \<Rightarrow>
          if currentPhaseIndex s < int (length phases) - 1
          then (let s1 = s\<lparr>currentPhaseIndex := currentPhaseIndex s + 1\<rparr>
                in displayPhaseWithAnimation (currentPhaseIndex s1) s1)
          else Inr s)"

definition speedSelector_change :: "nat \<Rightarrow> pstate \<Rightarrow> pstate" where
  "speedSelector_change v s =
     (let s1 = s\<lparr>playbackSpeed := v\<rparr> in
      if isPlaying s1 \<and> timer_set (playbackTimer s1)
      then arm_advance (clearTimeout (the (playbackTimer s1)) s1)
      else s1)"


text \<open>
  The render loop \<^verbatim>\<open>animate\<close>.  \<^verbatim>\<open>forEach\<close> visits the indices below the length it read
  at the start and skips an index that no longer exists after a \<^verbatim>\<open>splice\<close>.  An
  animation is complete when \<^verbatim>\<open>Math.min(1, elapsed / duration) < 1\<close> fails; the
  interpolated positions written while it runs are not part of the state kept here.
\<close>

fun forEach_animations :: "nat \<Rightarrow> nat \<Rightarrow> nat \<Rightarrow> pstate \<Rightarrow> pstate" where
  "forEach_animations currentTime index 0 s = s"
| "forEach_animations currentTime index (Suc n) s =
     (if index < length (unitAnimations s) then
        (let a = unitAnimations s ! index in
         if int currentTime - int (startTime a) < int (duration a)
         then forEach_animations currentTime (Suc index) n s
         else
           let s1 = s\<lparr>unitAnimations := take index (unitAnimations s) @ drop (Suc index) (unitAnimations s)\<rparr>;
               s2 = (if unitAnimations s1 = [] \<and> isPlaying s1 \<and> \<not> messagesPlaying s1
                     then arm_advance s1 else s1)
           in forEach_animations currentTime (Suc index) n s2)
      else forEach_animations currentTime (Suc index) n s)"

definition start_pending_units :: "pstate \<Rightarrow> pstate option" where
  "start_pending_units s =
     (if isPlaying s \<and> \<not> messagesPlaying s \<and> unitAnimations s = [] then
        (case gameData s of
           None \<Rightarrow> Some s
         | Some phases \<Rightarrow>
             let prevIndex = previous_index (currentPhaseIndex s) phases in
             if currentPhaseIndex s < 0 \<or> int (length phases) \<le> currentPhaseIndex s
                \<or> prevIndex < 0 \<or> int (length phases) \<le> prevIndex
             then None
             else Some (animateUnitsForPhase (phases ! nat (currentPhaseIndex s)) (phases ! nat prevIndex) s))
      else Some s)"

text \<open>\<open>None\<close> from \<open>start_pending_units\<close> is the type error of reading a phase that does not
  exist: the frame ends there.\<close>

definition animate :: "pstate \<Rightarrow> pstate" where
  "animate s =
     (let currentTime = now s in
      case start_pending_units s of
        None \<Rightarrow> s
      | Some s1 \<Rightarrow>
          if unitAnimations s1 \<noteq> []
          then forEach_animations currentTime 0 (length (unitAnimations s1)) s1
          else s1)"

section \<open>Loading a game\<close>

definition displaySupplyCenters :: "pstate \<Rightarrow> pstate" where
  "displaySupplyCenters s =
     (case coordinateData s of
        None \<Rightarrow> s
      | Some provinces \<Rightarrow>
          s\<lparr>unitMeshes := unitMeshes s @
              map (\<lambda>(province, d).
                     let p = getProvincePosition (coordinateData s) province
                     in SupplyCenterGroup province (pos_x p, 2, pos_z p))
                  (filter (\<lambda>(province, d). isSupplyCenter d \<and> hasCoordinates d) provinces)\<rparr>)"

definition displayUnit :: "string \<Rightarrow> pstate \<Rightarrow> string \<Rightarrow> pstate" where
  "displayUnit pw s unitStr =
     (case unit_match unitStr of
        None \<Rightarrow> s
      | Some (ty, loc) \<Rightarrow>
          let p = getProvincePosition (coordinateData s) loc
          in s\<lparr>unitMeshes := unitMeshes s @ [UnitGroup (toUpperCase pw) ty loc (pos_x p, 10, pos_z p)]\<rparr>)"

definition displayInitialPhase :: "int \<Rightarrow> pstate \<Rightarrow> pstate" where
  "displayInitialPhase index s =
     (case gameData s of
        None \<Rightarrow> s
      | Some phases \<Rightarrow>
          if index < 0 \<or> int (length phases) \<le> index then s
          else
            let s1 = displaySupplyCenters (s\<lparr>unitMeshes := filter userData_isSupplyCenter (unitMeshes s)\<rparr>)
            in foldl (\<lambda>st (pw, unitArr). foldl (displayUnit pw) st unitArr) s1
                 (units (phases ! nat index)))"

definition loadGame :: "phase list \<Rightarrow> pstate \<Rightarrow> pstate" where
  "loadGame phases s =
     (let s1 = s\<lparr>gameData := Some phases, currentPhaseIndex := 0\<rparr> in
      if phases \<noteq> [] then
        displayInitialPhase (currentPhaseIndex s1)
          (s1\<lparr>prevBtn_disabled := False, nextBtn_disabled := False, playBtn_disabled := False,
              speedSelector_disabled := False, chatWindows := createChatWindows (currentPower s1)\<rparr>)
      else s1)"

text \<open>The variables as the module initialises them; the controls start disabled, as the
  page's markup has them, until a game is loaded.\<close>

definition page_init :: "coordinate_data \<Rightarrow> pstate" where
  "page_init cd =
     \<lparr>gameData = None, currentPhaseIndex = 0, coordinateData = cd, unitMeshes = [],
      isPlaying = False, playbackSpeed = 500, playbackTimer = None, unitAnimations = [],
      chatWindows = Map.empty, currentPower = ''FRANCE'', messagesPlaying = False,
      prevBtn_disabled = True, nextBtn_disabled = True, playBtn_disabled = True,
      speedSelector_disabled = True, timers = [], next_handle = 1, now = 0, effects = []\<rparr>"

section \<open>Events\<close>

text \<open>
  What can happen to the page: time passes, the browser calls the render loop, a due
  timeout fires, or the user operates an enabled control.  \<open>step\<close> is \<open>None\<close> when the
  event cannot happen in the state.
\<close>

datatype event = Wait nat | Frame | Fire nat | ClickPlay | ClickPrev | ClickNext | SelectSpeed nat

definition run_callback :: "callback \<Rightarrow> pstate \<Rightarrow> completion" where
  "run_callback cb s =
     (case cb of
        AdvanceCb \<Rightarrow> advanceToNextPhase s
      | ShowNextCb phaseName rel index \<Rightarrow> showNext phaseName rel index s)"

definition fire :: "nat \<Rightarrow> pstate \<Rightarrow> pstate option" where
  "fire h s =
     (case find (\<lambda>t. handle t = h) (timers s) of
        None \<Rightarrow> None
      | Some t \<Rightarrow>
          if now s < due t then None
          else Some (state_of (run_callback (callback t) (clearTimeout h s))))"

fun step :: "event \<Rightarrow> pstate \<Rightarrow> pstate option" where
  "step (Wait d) s = Some (s\<lparr>now := now s + d\<rparr>)"
| "step Frame s = Some (animate s)"
| "step (Fire h) s = fire h s"
| "step ClickPlay s = (if playBtn_disabled s then None else Some (state_of (togglePlayback s)))"
| "step ClickPrev s = (if prevBtn_disabled s then None else Some (state_of (prevBtn_click s)))"
| "step ClickNext s = (if nextBtn_disabled s then None else Some (state_of (nextBtn_click s)))"
| "step (SelectSpeed v) s = (if speedSelector_disabled s then None else Some (speedSelector_change v s))"

fun run :: "event list \<Rightarrow> pstate \<Rightarrow> pstate option" where
  "run [] s = Some s"
| "run (e # es) s = (case step e s of None \<Rightarrow> None | Some s' \<Rightarrow> run es s')"

text \<open>
  A schedule is on time when no wait passes a pending timeout and every timeout fires
  at its due time, earliest first.
\<close>

definition event_on_time :: "event \<Rightarrow> pstate \<Rightarrow> bool" where
  "event_on_time e s =
     (case e of
        Wait d \<Rightarrow> list_all (\<lambda>t. now s + d \<le> due t) (timers s)
      | Fire h \<Rightarrow>
          (case find (\<lambda>t. handle t = h) (timers s) of
             None \<Rightarrow> False
           | Some t \<Rightarrow> due t = now s \<and> list_all (\<lambda>t'. due t \<le> due t') (timers s))
      | _ \<Rightarrow> True)"

fun on_time :: "event list \<Rightarrow> pstate \<Rightarrow> bool" where
  "on_time [] s = True"
| "on_time (e # es) s =
     (event_on_time e s \<and> (case step e s of None \<Rightarrow> False | Some s' \<Rightarrow> on_time es s'))"

definition advance_pending :: "pstate \<Rightarrow> timer list" where
  "advance_pending s = filter (\<lambda>t. callback t = AdvanceCb) (timers s)"


section \<open>The phase controller of phase.ts\<close>

text \<open>
  The second controller works on the shared object \<^verbatim>\<open>gameState\<close>.  Of that object the
  record keeps the fields \<^verbatim>\<open>_setPhase\<close>, \<^verbatim>\<open>nextPhase\<close> and \<^verbatim>\<open>displayPhase\<close> read or
  assign, the pending timeouts with the counter of handles, and under \<open>board\<close>
  everything else (unit meshes, board state, chat windows, the moments).  Writes to the
  page, the console and the debug menu are not part of the state.

  A pending timeout is kept with its handle, its delay and its callback: \<open>MomentOver\<close>
  is the callback \<^verbatim>\<open>nextPhase\<close> arms, \<open>Elsewhere\<close> one armed by another module.
\<close>

datatype ts_callback = MomentOver | Elsewhere

record ts_timer =
  ts_handle :: nat
  ts_delay :: nat
  ts_callback :: ts_callback

record 'r gameState =
  gs_phases :: "phase list"
  phaseIndex :: int
  gs_unitAnimations :: "anim list"
  gs_playbackTimer :: "nat option"
  gs_pending :: "ts_timer list"
  gs_next_handle :: nat
  isAnimating :: bool
  gs_messagesPlaying :: bool
  gs_isPlaying :: bool
  isDisplayingMoment :: bool
  has_momentsData :: bool
  board :: 'r

record moment =
  interest_score :: real
  powers_involved :: "string list"

text \<open>
  The functions \<^verbatim>\<open>phase.ts\<close> imports, the method \<^verbatim>\<open>gameState.checkPhaseHasMoment\<close> and
  the flag \<^verbatim>\<open>config.isDebugMode\<close> are parameters: each function may change the state in
  any way and returns.  \<open>markDisplayed\<close> stands for the write
  \<^verbatim>\<open>moment.hasBeenDisplayed = true\<close>, which lands in the moments kept under \<open>board\<close>.
  The functions of \<^verbatim>\<open>map/state.ts\<close> are parameters as well: \<^verbatim>\<open>phase.ts\<close> calls
  \<^verbatim>\<open>updateMapOwnership()\<close> without the argument the version at hand takes.
\<close>

record 'r externals =
  initUnits :: "int \<Rightarrow> 'r gameState \<Rightarrow> 'r gameState"
  updateMapOwnership :: "'r gameState \<Rightarrow> 'r gameState"
  updateSupplyCenterOwnership :: "phase \<Rightarrow> 'r gameState \<Rightarrow> 'r gameState"
  updateLeaderboard :: "phase \<Rightarrow> 'r gameState \<Rightarrow> 'r gameState"
  updateChatWindows_ts :: "phase \<Rightarrow> bool \<Rightarrow> 'r gameState \<Rightarrow> 'r gameState"
  createAnimationsForNextPhase :: "'r gameState \<Rightarrow> 'r gameState"
  loadNextGame :: "'r gameState \<Rightarrow> 'r gameState"
  showTwoPowerConversation :: "moment \<Rightarrow> 'r gameState \<Rightarrow> 'r gameState"
  closeTwoPowerConversation :: "'r gameState \<Rightarrow> 'r gameState"
  checkPhaseHasMoment :: "'r gameState \<Rightarrow> string \<Rightarrow> moment option"
  markDisplayed :: "moment \<Rightarrow> 'r \<Rightarrow> 'r"
  isDebugMode :: bool

definition MOMENT_THRESHOLD :: real where
  "MOMENT_THRESHOLD = 8"

definition MOMENT_DISPLAY_TIMEOUT_MS :: "'r externals \<Rightarrow> nat" where
  "MOMENT_DISPLAY_TIMEOUT_MS imp = (if isDebugMode imp then 5000 else 30000)"

text \<open>\<^verbatim>\<open>displayFinalPhase\<close> writes the victory banner, the log and the info panel only.\<close>

definition displayFinalPhase :: "'r gameState \<Rightarrow> 'r gameState" where
  "displayFinalPhase g = g"

definition displayPhase :: "'r externals \<Rightarrow> bool \<Rightarrow> 'r gameState \<Rightarrow> 'r gameState" where
  "displayPhase imp skipMessages g =
     (let index = phaseIndex g in
      if int (length (gs_phases g)) \<le> index then loadNextGame imp (displayFinalPhase g)
      else if index < 0 then g
      else
        let isFirstPhase = (index = 0);
            currentPhase = gs_phases g ! nat index;
            g1 = updateSupplyCenterOwnership imp currentPhase g;
            g2 = updateLeaderboard imp currentPhase g1;
            g3 = updateMapOwnership imp g2;
            g4 = (if \<not> skipMessages then updateChatWindows_ts imp currentPhase True g3
                  else g3\<lparr>gs_messagesPlaying := False\<rparr>)
        in if \<not> isFirstPhase \<and> \<not> skipMessages then createAnimationsForNextPhase imp g4
           else g4\<lparr>gs_messagesPlaying := False\<rparr>)"

text \<open>
  \<^verbatim>\<open>_setPhase(phaseIndex)\<close>, here \<open>setPhase\<close>: the result is the exception thrown or
  normal completion, paired with the state left behind.
\<close>

definition setPhase :: "'r externals \<Rightarrow> int \<Rightarrow> 'r gameState \<Rightarrow> (error + unit) \<times> 'r gameState" where
  "setPhase imp index g =
     (let gameLength = int (length (gs_phases g)) in
      if gameLength \<le> index \<or> index < 0
      then (Inl (InvalidPhaseIndex index (length (gs_phases g))), g)
      else
        let g' =
          (if index - phaseIndex g \<noteq> 1 then
             (let g1 = g\<lparr>gs_unitAnimations := []\<rparr>;
                  g2 = initUnits imp index g1;
                  g3 = g2\<lparr>phaseIndex := index\<rparr>
              in updateMapOwnership imp g3)
           else
             (let g1 = (if timer_set (gs_playbackTimer g)
                        then g\<lparr>gs_pending :=
                                 filter (\<lambda>t. Some (ts_handle t) \<noteq> gs_playbackTimer g) (gs_pending g),
                               gs_playbackTimer := Some 0\<rparr>
                        else g);
                  g2 = g1\<lparr>isAnimating := False, gs_messagesPlaying := False\<rparr>;
                  g3 = g2\<lparr>phaseIndex := phaseIndex g2 + 1\<rparr>
              in if index = gameLength - 1 then displayFinalPhase g3 else displayPhase imp False g3))
        in (Inr (), g'\<lparr>phaseIndex := index\<rparr>))"

text \<open>
  \<^verbatim>\<open>setTimeout(callback, delay)\<close> on \<^verbatim>\<open>gameState\<close>: the timeout joins the pending ones
  under a fresh handle.
\<close>

definition gs_setTimeout :: "ts_callback \<Rightarrow> nat \<Rightarrow> 'r gameState \<Rightarrow> 'r gameState" where
  "gs_setTimeout cb delay g =
     g\<lparr>gs_pending := gs_pending g @ [\<lparr>ts_handle = gs_next_handle g, ts_delay = delay, ts_callback = cb\<rparr>],
       gs_next_handle := Suc (gs_next_handle g)\<rparr>"

text \<open>
  \<^verbatim>\<open>nextPhase\<close> either moves at once, or shows a moment and, while playing, arms the
  timeout that will close the conversation and move (\<open>Deferred\<close>), or does not move.
  Reading the name of a phase that does not exist is a type error.
\<close>

datatype outcome = Moved "error + unit" | Deferred | NotMoving

definition nextPhase :: "'r externals \<Rightarrow> 'r gameState \<Rightarrow> outcome \<times> 'r gameState" where
  "nextPhase imp g =
     (if \<not> isDisplayingMoment g \<and> has_momentsData g then
        (if phaseIndex g < 0 \<or> int (length (gs_phases g)) \<le> phaseIndex g
         then (Moved (Inl TypeError), g)
         else
           case checkPhaseHasMoment imp g (name (gs_phases g ! nat (phaseIndex g))) of
             None \<Rightarrow> (let (r, g') = setPhase imp (phaseIndex g + 1) g in (Moved r, g'))
           | Some m \<Rightarrow>
               if MOMENT_THRESHOLD \<le> interest_score m \<and> 2 \<le> length (powers_involved m) then
                 (let g0 = g\<lparr>board := markDisplayed imp m (board g)\<rparr>;
                      g1 = showTwoPowerConversation imp m g0 in
                  if gs_isPlaying g1
                  then (Deferred, gs_setTimeout MomentOver (MOMENT_DISPLAY_TIMEOUT_MS imp) g1)
                  else (let (r, g') = setPhase imp (phaseIndex g1 + 1) g1 in (Moved r, g')))
               else (let (r, g') = setPhase imp (phaseIndex g + 1) g in (Moved r, g')))
      else (NotMoving, g))"

text \<open>
  The callback of that timeout, run when it fires:
  \<^verbatim>\<open>closeTwoPowerConversation(); _setPhase(gameState.phaseIndex + 1)\<close>.
\<close>

definition moment_over :: "'r externals \<Rightarrow> 'r gameState \<Rightarrow> (error + unit) \<times> 'r gameState" where
  "moment_over imp g =
     (let g1 = closeTwoPowerConversation imp g in setPhase imp (phaseIndex g1 + 1) g1)"

definition previousPhase :: "'r externals \<Rightarrow> 'r gameState \<Rightarrow> (error + unit) \<times> 'r gameState" where
  "previousPhase imp g = setPhase imp (phaseIndex g - 1) g"

text \<open>
  The frame the imported functions are taken to respect: they leave the list of phases
  as it is, and showing a conversation does not move the phase index.
\<close>

definition keeps_replay :: "'r externals \<Rightarrow> bool" where
  "keeps_replay imp \<longleftrightarrow>
     (\<forall>g i ph b m.
        gs_phases (initUnits imp i g) = gs_phases g \<and>
        gs_phases (updateMapOwnership imp g) = gs_phases g \<and>
        gs_phases (updateSupplyCenterOwnership imp ph g) = gs_phases g \<and>
        gs_phases (updateLeaderboard imp ph g) = gs_phases g \<and>
        gs_phases (updateChatWindows_ts imp ph b g) = gs_phases g \<and>
        gs_phases (createAnimationsForNextPhase imp g) = gs_phases g \<and>
        gs_phases (showTwoPowerConversation imp m g) = gs_phases g \<and>
        phaseIndex (showTwoPowerConversation imp m g) = phaseIndex g)"

definition gs_index_ok :: "'r gameState \<Rightarrow> bool" where
  "gs_index_ok g \<longleftrightarrow> 0 \<le> phaseIndex g \<and> phaseIndex g < int (length (gs_phases g))"

definition index_ok :: "phase list \<Rightarrow> pstate \<Rightarrow> bool" where
  "index_ok phases s \<longleftrightarrow>
     gameData s = Some phases \<and> 0 \<le> currentPhaseIndex s \<and> currentPhaseIndex s < int (length phases)"


section \<open>The reveal path\<close>

text \<open>
  The callbacks of one reveal chain, in the order their timeouts fire: \<^verbatim>\<open>showNext\<close> at
  \<open>index\<close>, then at the next index, \<open>k\<close> times.  A step that throws has armed no
  timeout, so the chain ends with it.  The reveal path of a phase is the call
  \<^verbatim>\<open>updateChatWindows(phase, true)\<close>, which runs \<^verbatim>\<open>showNext\<close> at index 0 itself, followed by
  the callbacks of its chain up to the one that finds the list exhausted; \<open>reveal_path\<close>
  is the state the page is left in.
\<close>

fun chain :: "string \<Rightarrow> msg list \<Rightarrow> nat \<Rightarrow> nat \<Rightarrow> completion \<Rightarrow> completion" where
  "chain phaseName rel index 0 r = r"
| "chain phaseName rel index (Suc k) r =
     (case r of
        Inl x \<Rightarrow> Inl x
      | Inr s \<Rightarrow> chain phaseName rel (Suc index) k (showNext phaseName rel index s))"

definition reveal_path :: "phase \<Rightarrow> pstate \<Rightarrow> pstate" where
  "reveal_path ph s =
     (let rel = relevantMessages (currentPower s) ph
      in state_of (chain (name ph) rel 1 (length rel) (updateChatWindows ph True s)))"

text \<open>
  The bucket of a message is inherited when \<^verbatim>\<open>chatWindows[targetPower]\<close> reads a member of
  \<^verbatim>\<open>Object.prototype\<close>.  A message is settled when its bucket reads \<^verbatim>\<open>undefined\<close> or is a
  window that has recorded its identifier.
\<close>

definition inherited :: "string \<Rightarrow> chat_windows \<Rightarrow> msg \<Rightarrow> bool" where
  "inherited cp cws m \<longleftrightarrow> get_window cws (targetPower cp m) = Inherited"

definition settled :: "string \<Rightarrow> chat_windows \<Rightarrow> msg \<Rightarrow> bool" where
  "settled cp cws m =
     (case get_window cws (targetPower cp m) of
        Absent \<Rightarrow> True
      | Inherited \<Rightarrow> False
      | Own w \<Rightarrow> msgId m \<in> seenMessages w)"

text \<open>The windows after one call of \<^verbatim>\<open>addMessageToChat\<close>, whether it returns or throws.\<close>

definition add_cw :: "string \<Rightarrow> string \<Rightarrow> chat_windows \<Rightarrow> msg \<Rightarrow> chat_windows" where
  "add_cw cp phaseName cws m =
     (case addMessageToChat cp m phaseName cws of Inl e \<Rightarrow> cws | Inr (isNew, cws') \<Rightarrow> cws')"


text \<open>
  \<open>grows w w'\<close>: the window \<open>w'\<close> extends \<open>w\<close> by as many elements as identifiers.
\<close>

definition grows :: "chat_window \<Rightarrow> chat_window \<Rightarrow> bool" where
  "grows w w' \<longleftrightarrow>
     seenMessages w \<subseteq> seenMessages w' \<and> finite (seenMessages w' - seenMessages w) \<and>
     length (messagesContainer w') = length (messagesContainer w) + card (seenMessages w' - seenMessages w)"

section \<open>A small replay\<close>

text \<open>Two phases; the first has one global message.\<close>

definition ex_hi :: msg where
  "ex_hi = \<lparr>sender = ''FRANCE'', recipient = ''GLOBAL'', time_sent = 100, message = ''Hi''\<rparr>"

definition ex_phase0 :: phase where
  "ex_phase0 = \<lparr>name = ''S1901M'', messages = [ex_hi], units = [(''FRANCE'', [''A PAR''])]\<rparr>"

definition ex_phase1 :: phase where
  "ex_phase1 = \<lparr>name = ''F1901M'', messages = [], units = [(''FRANCE'', [''A BUR''])]\<rparr>"

definition ex_loaded :: pstate where
  "ex_loaded = loadGame [ex_phase0, ex_phase1] (page_init None)"

definition ex_window :: chat_window where
  "ex_window = \<lparr>messagesContainer = [], isGlobal = True, seenMessages = {}\<rparr>"

text \<open>The same replay under the controller of phase.ts, with imports that do nothing.\<close>

definition ex_externals :: "unit externals" where
  "ex_externals =
     \<lparr>initUnits = (\<lambda>i g. g), updateMapOwnership = (\<lambda>g. g),
      updateSupplyCenterOwnership = (\<lambda>ph g. g), updateLeaderboard = (\<lambda>ph g. g),
      updateChatWindows_ts = (\<lambda>ph b g. g), createAnimationsForNextPhase = (\<lambda>g. g),
      loadNextGame = (\<lambda>g. g), showTwoPowerConversation = (\<lambda>m g. g),
      closeTwoPowerConversation = (\<lambda>g. g), checkPhaseHasMoment = (\<lambda>g n. None),
      markDisplayed = (\<lambda>m b. b), isDebugMode = False\<rparr>"

definition ex_game :: "int \<Rightarrow> unit gameState" where
  "ex_game i =
     \<lparr>gs_phases = [ex_phase0, ex_phase1], phaseIndex = i, gs_unitAnimations = [],
      gs_playbackTimer = Some 7,
      gs_pending = [\<lparr>ts_handle = 7, ts_delay = 500, ts_callback = Elsewhere\<rparr>],
      gs_next_handle = 8, isAnimating = False,
      gs_messagesPlaying = False, gs_isPlaying = False, isDisplayingMoment = False,
      has_momentsData = True, board = ()\<rparr>"

text \<open>
  Stepping to the last phase, starting playback there and letting the advance timeout
  fire: the index wraps to 0.
\<close>

definition ex_wrap :: "event list" where
  "ex_wrap = [ClickNext, ClickPlay, Wait 1500, Frame, Wait 500, Fire 1]"

section \<open>The transition planner as the specification words it\<close>

text \<open>
  The unit strings of a phase that match the pattern, as (power, type, location) in
  iteration order; \<open>unit_pairs\<close> lists every unit string with its power first.
\<close>

definition unit_pairs :: "(string \<times> string list) list \<Rightarrow> (string \<times> string) list" where
  "unit_pairs entries = concat (map (\<lambda>(pw, unitArr). map (Pair pw) unitArr) entries)"

definition parse_pair :: "string \<times> string \<Rightarrow> (string \<times> char \<times> string) option" where
  "parse_pair pu = map_option (\<lambda>(ty, loc). (fst pu, ty, loc)) (unit_match (snd pu))"

definition parsed_units :: "(string \<times> string list) list \<Rightarrow> (string \<times> char \<times> string) list" where
  "parsed_units entries = List.map_filter parse_pair (unit_pairs entries)"

datatype kind = Move | Spawn

record planned =
  plan_kind :: kind
  plan_from :: pos
  plan_to :: pos

text \<open>The first unclaimed previous unit of the same power and the same type.\<close>

fun claim_first ::
  "string \<Rightarrow> char \<Rightarrow> (string \<times> char \<times> string) list
     \<Rightarrow> (string \<times> (string \<times> char \<times> string) list) option" where
  "claim_first pw ty [] = None"
| "claim_first pw ty ((q, t, l) # us) =
     (if q = pw \<and> t = ty then Some (l, us)
      else map_option (\<lambda>(l', rest). (l', (q, t, l) # rest)) (claim_first pw ty us))"

fun greedy_plan ::
  "coordinate_data \<Rightarrow> (string \<times> char \<times> string) list \<Rightarrow> (string \<times> char \<times> string) list
     \<Rightarrow> planned list" where
  "greedy_plan cd unclaimed [] = []"
| "greedy_plan cd unclaimed ((pw, ty, loc) # us) =
     (let target = getProvincePosition cd loc in
      case claim_first pw ty unclaimed of
        Some (l', rest) \<Rightarrow>
          \<lparr>plan_kind = Move, plan_from = getProvincePosition cd l', plan_to = target\<rparr>
            # greedy_plan cd rest us
      | None \<Rightarrow>
          \<lparr>plan_kind = Spawn,
           plan_from = \<lparr>pos_x = pos_x target, pos_y = - 20, pos_z = pos_z target\<rparr>,
           plan_to = target\<rparr>
            # greedy_plan cd unclaimed us)"

definition hyphen_free :: "(string \<times> string list) list \<Rightarrow> bool" where
  "hyphen_free entries \<longleftrightarrow> list_all (\<lambda>(pw, unitArr). CHR ''-'' \<notin> set pw) entries"

text \<open>The table \<^verbatim>\<open>previousUnitPositions\<close> that lists the given units, one key each.\<close>

definition table_of :: "coordinate_data \<Rightarrow> (string \<times> char \<times> string) list \<Rightarrow> (string \<times> pos) list" where
  "table_of cd us = map (\<lambda>(pw, ty, loc). (unit_key pw ty loc, getProvincePosition cd loc)) us"

definition well_formed_count :: "(string \<times> string list) list \<Rightarrow> nat" where
  "well_formed_count entries = length (filter (\<lambda>u. unit_match u \<noteq> None) (concat (map snd entries)))"

text \<open>Units whose power names contain no hyphen.\<close>

definition plain :: "(string \<times> char \<times> string) list \<Rightarrow> bool" where
  "plain us \<longleftrightarrow> (\<forall>(q, t, l) \<in> set us. CHR ''-'' \<notin> set q)"

section \<open>Sample unit tables\<close>

definition ex_coordinates :: coordinate_data where
  "ex_coordinates = Some
     [(''LON'', \<lparr>label_x = 100, label_y = 110, isSupplyCenter = True, hasCoordinates = True\<rparr>),
      (''NTH'', \<lparr>label_x = 150, label_y = 60, isSupplyCenter = False, hasCoordinates = True\<rparr>),
      (''PAR'', \<lparr>label_x = 90, label_y = 200, isSupplyCenter = True, hasCoordinates = True\<rparr>),
      (''BUR'', \<lparr>label_x = 120, label_y = 210, isSupplyCenter = False, hasCoordinates = True\<rparr>),
      (''MAR'', \<lparr>label_x = 110, label_y = 260, isSupplyCenter = True, hasCoordinates = True\<rparr>)]"

definition ex_lon :: phase where
  "ex_lon = \<lparr>name = ''S1901M'', messages = [], units = [(''ENGLAND'', [''F LON''])]\<rparr>"

definition ex_nth :: phase where
  "ex_nth = \<lparr>name = ''F1901M'', messages = [], units = [(''ENGLAND'', [''F NTH''])]\<rparr>"

text \<open>A previous phase that lists the same army twice, and a phase with a unit string
  that does not match the pattern.\<close>

definition ex_twice :: phase where
  "ex_twice = \<lparr>name = ''S1902M'', messages = [], units = [(''FRANCE'', [''A PAR'', ''A PAR''])]\<rparr>"

definition ex_two :: phase where
  "ex_two = \<lparr>name = ''F1902M'', messages = [], units = [(''FRANCE'', [''A BUR'', ''A MAR''])]\<rparr>"

definition ex_malformed :: phase where
  "ex_malformed = \<lparr>name = ''S1903M'', messages = [], units = [(''FRANCE'', [''A PAR'', ''PAR''])]\<rparr>"

section \<open>Sample schedules\<close>

text \<open>How often \<^verbatim>\<open>advanceToNextPhase\<close> has run.\<close>

definition advance_runs :: "pstate \<Rightarrow> nat" where
  "advance_runs s = length (filter (\<lambda>e. e = AdvanceRun) (effects s))"

definition ex_reply :: msg where
  "ex_reply = \<lparr>sender = ''ENGLAND'', recipient = ''FRANCE'', time_sent = 200, message = ''Hello''\<rparr>"

definition ex_offer :: msg where
  "ex_offer = \<lparr>sender = ''FRANCE'', recipient = ''ENGLAND'', time_sent = 300, message = ''Peace?''\<rparr>"

definition ex_talk :: phase where
  "ex_talk = \<lparr>name = ''S1902M'', messages = [ex_reply, ex_offer], units = [(''FRANCE'', [''A MAR''])]\<rparr>"

text \<open>
  Playback at the slow speed of 2000 ms: the reveal chain of the first phase ends and
  arms an advance, the next frame starts the unit animation, and the frame 1500 ms
  later finds it complete.
\<close>

definition ex_slow :: "event list" where
  "ex_slow = [SelectSpeed 2000, ClickPlay, Wait 6000, Fire 1, Wait 16, Frame, Wait 1500, Frame]"

text \<open>
  A replay of three phases, stepped forward twice and then played: the chain of the
  second phase ends while the chains of the third are in flight, and a frame follows.
\<close>

definition ex_loaded3 :: pstate where
  "ex_loaded3 = loadGame [ex_phase1, ex_phase0, ex_talk] (page_init None)"

definition ex_overtake :: "event list" where
  "ex_overtake = [ClickNext, Wait 400, ClickNext, Wait 400, ClickPlay, Wait 700, Fire 1, Wait 10, Frame]"

text \<open>Playback started on a phase with two messages and paused after one second.\<close>

definition ex_loaded_talk :: pstate where
  "ex_loaded_talk = loadGame [ex_talk, ex_phase1] (page_init None)"

definition ex_pause :: "event list" where
  "ex_pause = [ClickPlay, Wait 1000, ClickPlay, Wait 500]"

text \<open>
  The slow playback above, paused at 7516 ms, as soon as the unit animation is complete.
\<close>

definition ex_slow_pause :: "event list" where
  "ex_slow_pause = ex_slow @ [ClickPlay]"

text \<open>
  A first phase whose first message comes from a sender named like a member of
  \<^verbatim>\<open>Object.prototype\<close>; no chat window exists under that name.
\<close>

definition ex_ctor :: msg where
  "ex_ctor = \<lparr>sender = ''constructor'', recipient = ''FRANCE'', time_sent = 50, message = ''Greetings''\<rparr>"

definition ex_phase_ctor :: phase where
  "ex_phase_ctor = \<lparr>name = ''S1901M'', messages = [ex_ctor, ex_hi], units = [(''FRANCE'', [''A PAR''])]\<rparr>"

definition ex_loaded_ctor :: pstate where
  "ex_loaded_ctor = loadGame [ex_phase_ctor, ex_phase1] (page_init None)"

definition animation_starts :: "pstate \<Rightarrow> nat list" where
  "animation_starts s = map startTime (unitAnimations s)"

definition anim_span :: "anim \<Rightarrow> pos \<times> pos" where
  "anim_span a = (startPos a, endPos a)"

definition planned_span :: "planned \<Rightarrow> pos \<times> pos" where
  "planned_span p = (plan_from p, plan_to p)"

definition is_move :: "planned \<Rightarrow> bool" where
  "is_move p \<longleftrightarrow> plan_kind p = Move"

section \<open>Unfolding sets for evaluation\<close>

lemmas chat_defs =
  createChatWindows_def createChatWindow_def addMessageToChat_def get_window_def
  Object_prototype_keys_def targetPower_def msgId_def
  int_to_string_def message_element_def reveal_def animateHeadNod_def relevantMessages_def

lemmas timer_defs =
  setTimeout_def clearTimeout_def arm_advance_def timer_set_def fire_def run_callback_def
  state_of_def

lemmas unit_defs =
  unit_match_def is_space_def is_line_terminator_def getProvincePosition_def toUpperCase_def
  upper_char_def hashStringToPosition_def string_hash_def hash_step_def
  plan_units_def plan_unit_def previousUnitPositions_def record_previous_def unit_key_def
  key_prefix_def startsWith_def createUnitMesh_def animationDuration_def

lemmas page_defs =
  loadGame_def page_init_def displayInitialPhase_def displaySupplyCenters_def displayUnit_def
  speedSelector_change_def togglePlayback_def updateChatWindows_def showNext_def
  displayPhaseWithAnimation_def animateUnitsForPhase_def previous_index_def animate_def
  start_pending_units_def advanceToNextPhase_def prevBtn_click_def nextBtn_click_def

section \<open>Chat windows: what one reveal does\<close>

lemma get_window_cases:
  "get_window cws k = Absent \<or> get_window cws k = Inherited \<or> (\<exists>w. cws k = Some w)"
  by (simp add: get_window_def split: option.splits)

lemma get_window_Some [simp]: "cws k = Some w \<Longrightarrow> get_window cws k = Own w"
  by (simp add: get_window_def)

lemma get_window_Own_iff: "get_window cws k = Own w \<longleftrightarrow> cws k = Some w"
  by (simp add: get_window_def split: option.splits)

lemma addMessageToChat_Absent:
  "get_window cws (targetPower cp m) = Absent \<Longrightarrow> addMessageToChat cp m pn cws = Inr (None, cws)"
  by (simp add: addMessageToChat_def)

lemma addMessageToChat_Inherited:
  "get_window cws (targetPower cp m) = Inherited \<Longrightarrow> addMessageToChat cp m pn cws = Inl TypeError"
  by (simp add: addMessageToChat_def)

lemma addMessageToChat_Own:
  "cws (targetPower cp m) = Some w \<Longrightarrow>
   addMessageToChat cp m pn cws =
     (if msgId m \<in> seenMessages w then Inr (Some False, cws)
      else Inr (Some True,
             cws(targetPower cp m \<mapsto> w\<lparr>seenMessages := insert (msgId m) (seenMessages w),
                   messagesContainer := messagesContainer w @ [message_element cp m pn]\<rparr>)))"
  by (simp add: addMessageToChat_def get_window_def)

lemma add_cw_Absent: "get_window cws (targetPower cp m) = Absent \<Longrightarrow> add_cw cp pn cws m = cws"
  by (simp add: add_cw_def addMessageToChat_Absent)

lemma add_cw_Inherited: "get_window cws (targetPower cp m) = Inherited \<Longrightarrow> add_cw cp pn cws m = cws"
  by (simp add: add_cw_def addMessageToChat_Inherited)

lemma add_cw_Own:
  "cws (targetPower cp m) = Some w \<Longrightarrow>
   add_cw cp pn cws m =
     (if msgId m \<in> seenMessages w then cws
      else cws(targetPower cp m \<mapsto> w\<lparr>seenMessages := insert (msgId m) (seenMessages w),
                   messagesContainer := messagesContainer w @ [message_element cp m pn]\<rparr>))"
  by (simp add: add_cw_def addMessageToChat_Own)

lemma add_cw_settled_id: "settled cp cws m \<Longrightarrow> add_cw cp pn cws m = cws"
  using get_window_cases[of cws "targetPower cp m"]
  by (auto simp: settled_def add_cw_Absent add_cw_Own)

lemma add_cw_inherited_id: "inherited cp cws m \<Longrightarrow> add_cw cp pn cws m = cws"
  by (simp add: inherited_def add_cw_Inherited)

lemma add_cw_same_keys: "add_cw cp pn cws m k = None \<longleftrightarrow> cws k = None"
  using get_window_cases[of cws "targetPower cp m"]
  by (auto simp: add_cw_Absent add_cw_Inherited add_cw_Own split: if_splits)

lemma get_window_add_cw_Inherited:
  "get_window (add_cw cp pn cws m) k = Inherited \<longleftrightarrow> get_window cws k = Inherited"
proof (cases "cws k")
  case None
  then have "add_cw cp pn cws m k = None" by (simp add: add_cw_same_keys)
  with None show ?thesis by (simp add: get_window_def)
next
  case (Some w)
  then obtain w' where "add_cw cp pn cws m k = Some w'"
    using add_cw_same_keys[of cp pn cws m k] by auto
  with Some show ?thesis by (simp add: get_window_def)
qed

lemma inherited_add_cw [simp]: "inherited cp (add_cw cp pn cws m') m = inherited cp cws m"
  by (simp add: inherited_def get_window_add_cw_Inherited)

lemma inherited_foldl_add_cw [simp]:
  "inherited cp (foldl (add_cw cp pn) cws ms) m = inherited cp cws m"
  by (induction ms arbitrary: cws) simp_all

lemma settled_add_cw_same: "\<not> inherited cp cws m \<Longrightarrow> settled cp (add_cw cp pn cws m) m"
  using get_window_cases[of cws "targetPower cp m"]
  by (auto simp: settled_def inherited_def add_cw_Absent add_cw_Own)

lemma settled_add_cw_mono:
  assumes "settled cp cws m'"
  shows "settled cp (add_cw cp pn cws m) m'"
proof (cases "add_cw cp pn cws m = cws")
  case True
  with assms show ?thesis by simp
next
  case False
  with get_window_cases[of cws "targetPower cp m"]
  obtain w where w: "cws (targetPower cp m) = Some w"
    by (auto simp: add_cw_Absent add_cw_Inherited)
  with False have n: "msgId m \<notin> seenMessages w" by (auto simp: add_cw_Own)
  from w n have e: "add_cw cp pn cws m =
           cws(targetPower cp m \<mapsto> w\<lparr>seenMessages := insert (msgId m) (seenMessages w),
                   messagesContainer := messagesContainer w @ [message_element cp m pn]\<rparr>)"
    by (simp add: add_cw_Own)
  show ?thesis
  proof (cases "targetPower cp m' = targetPower cp m")
    case True
    with assms w show ?thesis by (simp add: settled_def e)
  next
    case False
    then have "get_window (add_cw cp pn cws m) (targetPower cp m') = get_window cws (targetPower cp m')"
      by (simp add: e get_window_def)
    with assms show ?thesis by (simp add: settled_def)
  qed
qed

lemma foldl_add_cw_mono:
  "settled cp cws m \<Longrightarrow> settled cp (foldl (add_cw cp pn) cws ms) m"
  by (induction ms arbitrary: cws) (simp_all add: settled_add_cw_mono)

lemma foldl_add_cw_settles:
  "m \<in> set ms \<Longrightarrow> \<not> inherited cp cws m \<Longrightarrow> settled cp (foldl (add_cw cp pn) cws ms) m"
proof (induction ms arbitrary: cws)
  case Nil
  then show ?case by simp
next
  case (Cons a ms)
  show ?case
  proof (cases "m = a")
    case True
    with Cons.prems show ?thesis by (simp add: foldl_add_cw_mono settled_add_cw_same)
  next
    case False
    with Cons show ?thesis by simp
  qed
qed

lemma grows_refl: "grows w w"
  by (simp add: grows_def)

lemma grows_trans:
  assumes "grows a b" "grows b c"
  shows "grows a c"
proof -
  let ?A = "seenMessages a" and ?B = "seenMessages b" and ?C = "seenMessages c"
  from assms have sub: "?A \<subseteq> ?B" "?B \<subseteq> ?C"
    and fin: "finite (?B - ?A)" "finite (?C - ?B)"
    by (simp_all add: grows_def)
  have split: "?C - ?A = (?C - ?B) \<union> (?B - ?A)" using sub by blast
  have disj: "(?C - ?B) \<inter> (?B - ?A) = {}" by blast
  have "card (?C - ?A) = card (?C - ?B) + card (?B - ?A)"
    unfolding split using fin disj by (simp add: card_Un_disjoint)
  with assms sub fin split show ?thesis
    by (simp add: grows_def)
qed

lemma add_cw_grows:
  assumes "cws b = Some w"
  shows "\<exists>w'. add_cw cp pn cws m b = Some w' \<and> grows w w'"
proof (cases "get_window cws (targetPower cp m)")
  case Absent
  then show ?thesis using assms by (simp add: add_cw_Absent grows_refl)
next
  case Inherited
  then show ?thesis using assms by (simp add: add_cw_Inherited grows_refl)
next
  case (Own v)
  then have v: "cws (targetPower cp m) = Some v" by (simp add: get_window_Own_iff)
  show ?thesis
  proof (cases "msgId m \<in> seenMessages v")
    case True
    then show ?thesis using assms v by (simp add: add_cw_Own grows_refl)
  next
    case False
    show ?thesis
    proof (cases "b = targetPower cp m")
      case True
      with assms v have "v = w" by simp
      have d: "insert (msgId m) (seenMessages w) - seenMessages w = {msgId m}"
        using False \<open>v = w\<close> by blast
      show ?thesis using assms v False True \<open>v = w\<close> d
        by (auto simp: add_cw_Own grows_def)
    next
      case False
      then show ?thesis using assms v \<open>msgId m \<notin> seenMessages v\<close>
        by (simp add: add_cw_Own grows_refl)
    qed
  qed
qed

lemma foldl_add_cw_grows:
  "cws b = Some w \<Longrightarrow> \<exists>w'. foldl (add_cw cp pn) cws ms b = Some w' \<and> grows w w'"
proof (induction ms arbitrary: cws w)
  case Nil
  then show ?case by (simp add: grows_refl)
next
  case (Cons m ms)
  from add_cw_grows[where cws=cws and b=b and w=w and cp=cp and pn=pn and m=m, OF Cons.prems]
  obtain w1 where w1: "add_cw cp pn cws m b = Some w1" "grows w w1" by blast
  from Cons.IH[where cws="add_cw cp pn cws m" and w=w1, OF w1(1)]
  obtain w2 where "foldl (add_cw cp pn) (add_cw cp pn cws m) ms b = Some w2" "grows w1 w2"
    by blast
  with w1 show ?case by (auto intro: grows_trans)
qed

section \<open>Fields a callback leaves alone\<close>

lemma setTimeout_fields [simp]:
  "chatWindows (snd (setTimeout cb d s)) = chatWindows s"
  "effects (snd (setTimeout cb d s)) = effects s"
  "currentPower (snd (setTimeout cb d s)) = currentPower s"
  "currentPhaseIndex (snd (setTimeout cb d s)) = currentPhaseIndex s"
  "gameData (snd (setTimeout cb d s)) = gameData s"
  "isPlaying (snd (setTimeout cb d s)) = isPlaying s"
  "messagesPlaying (snd (setTimeout cb d s)) = messagesPlaying s"
  "unitAnimations (snd (setTimeout cb d s)) = unitAnimations s"
  "playbackTimer (snd (setTimeout cb d s)) = playbackTimer s"
  "playbackSpeed (snd (setTimeout cb d s)) = playbackSpeed s"
  "now (snd (setTimeout cb d s)) = now s"
  by (simp_all add: setTimeout_def)

lemma arm_advance_fields [simp]:
  "chatWindows (arm_advance s) = chatWindows s"
  "effects (arm_advance s) = effects s"
  "currentPower (arm_advance s) = currentPower s"
  "currentPhaseIndex (arm_advance s) = currentPhaseIndex s"
  "gameData (arm_advance s) = gameData s"
  "isPlaying (arm_advance s) = isPlaying s"
  "messagesPlaying (arm_advance s) = messagesPlaying s"
  "unitAnimations (arm_advance s) = unitAnimations s"
  "now (arm_advance s) = now s"
  by (simp_all add: arm_advance_def setTimeout_def)

lemma state_of_simps [simp]:
  "state_of (Inl (e, s)) = s" "state_of (Inr s) = s"
  by (simp_all add: state_of_def)

lemma reveal_inherited:
  "inherited (currentPower s) (chatWindows s) m \<Longrightarrow> reveal pn m s = Inl (TypeError, s)"
  by (simp add: reveal_def addMessageToChat_Inherited inherited_def)

lemma reveal_returns:
  assumes "\<not> inherited (currentPower s) (chatWindows s) m"
  shows "\<exists>s1. reveal pn m s = Inr s1 \<and>
           chatWindows s1 = add_cw (currentPower s) pn (chatWindows s) m \<and>
           currentPower s1 = currentPower s \<and> currentPhaseIndex s1 = currentPhaseIndex s \<and>
           gameData s1 = gameData s \<and> isPlaying s1 = isPlaying s \<and>
           messagesPlaying s1 = messagesPlaying s \<and> unitAnimations s1 = unitAnimations s \<and>
           playbackSpeed s1 = playbackSpeed s \<and> timers s1 = timers s \<and> now s1 = now s \<and>
           next_handle s1 = next_handle s"
proof -
  from assms get_window_cases[of "chatWindows s" "targetPower (currentPower s) m"]
  have "\<exists>r. addMessageToChat (currentPower s) m pn (chatWindows s) = Inr r"
    by (auto simp: inherited_def addMessageToChat_Absent addMessageToChat_Own)
  then obtain r where r: "addMessageToChat (currentPower s) m pn (chatWindows s) = Inr r" ..
  then show ?thesis
    by (cases r) (simp add: reveal_def add_cw_def animateHeadNod_def Let_def)
qed

lemma reveal_state:
  "chatWindows (state_of (reveal pn m s)) = add_cw (currentPower s) pn (chatWindows s) m"
  "currentPower (state_of (reveal pn m s)) = currentPower s"
  "currentPhaseIndex (state_of (reveal pn m s)) = currentPhaseIndex s"
  "gameData (state_of (reveal pn m s)) = gameData s"
proof -
  show "chatWindows (state_of (reveal pn m s)) = add_cw (currentPower s) pn (chatWindows s) m"
    using reveal_returns[of s m pn] reveal_inherited[of s m pn] add_cw_inherited_id[of "currentPower s" "chatWindows s" m pn]
    by (cases "inherited (currentPower s) (chatWindows s) m") auto
  show "currentPower (state_of (reveal pn m s)) = currentPower s"
    using reveal_returns[of s m pn] reveal_inherited[of s m pn]
    by (cases "inherited (currentPower s) (chatWindows s) m") auto
  show "currentPhaseIndex (state_of (reveal pn m s)) = currentPhaseIndex s"
    using reveal_returns[of s m pn] reveal_inherited[of s m pn]
    by (cases "inherited (currentPower s) (chatWindows s) m") auto
  show "gameData (state_of (reveal pn m s)) = gameData s"
    using reveal_returns[of s m pn] reveal_inherited[of s m pn]
    by (cases "inherited (currentPower s) (chatWindows s) m") auto
qed

lemma reveal_settled: "settled (currentPower s) (chatWindows s) m \<Longrightarrow> reveal pn m s = Inr s"
  using get_window_cases[of "chatWindows s" "targetPower (currentPower s) m"]
  by (auto simp: reveal_def settled_def addMessageToChat_Absent addMessageToChat_Own)

lemma showNext_done:
  "length rel \<le> i \<Longrightarrow>
   \<exists>s1. showNext pn rel i s = Inr s1 \<and> chatWindows s1 = chatWindows s \<and>
        currentPower s1 = currentPower s \<and> effects s1 = effects s"
  by (simp add: showNext_def Let_def)

lemma showNext_inherited:
  "i < length rel \<Longrightarrow> inherited (currentPower s) (chatWindows s) (rel ! i) \<Longrightarrow>
   showNext pn rel i s = Inl (TypeError, s)"
  by (simp add: showNext_def reveal_inherited)

lemma showNext_returns:
  assumes "i < length rel" "\<not> inherited (currentPower s) (chatWindows s) (rel ! i)"
  shows "\<exists>s1. showNext pn rel i s = Inr s1 \<and>
           chatWindows s1 = add_cw (currentPower s) pn (chatWindows s) (rel ! i) \<and>
           currentPower s1 = currentPower s"
proof -
  from reveal_returns[OF assms(2), of pn] obtain s1 where
    "reveal pn (rel ! i) s = Inr s1"
    "chatWindows s1 = add_cw (currentPower s) pn (chatWindows s) (rel ! i)"
    "currentPower s1 = currentPower s" by blast
  with assms(1) show ?thesis by (simp add: showNext_def)
qed

lemma showNext_settled:
  "i < length rel \<Longrightarrow> settled (currentPower s) (chatWindows s) (rel ! i) \<Longrightarrow>
   showNext pn rel i s = Inr (snd (setTimeout (ShowNextCb pn rel (Suc i)) (playbackSpeed s * 3) s))"
  by (simp add: showNext_def reveal_settled)

lemma take_Suc_drop:
  "take (Suc k) (drop i xs) = (if i < length xs then xs ! i # take k (drop (Suc i) xs) else [])"
  by (simp add: Cons_nth_drop_Suc[symmetric])

lemma chain_Inl [simp]: "chain pn rel i k (Inl x) = Inl x"
  by (cases k) simp_all

lemma chain_chat:
  "chatWindows (state_of (chain pn rel i k (Inr s))) =
     foldl (add_cw (currentPower s) pn) (chatWindows s)
       (takeWhile (\<lambda>m. \<not> inherited (currentPower s) (chatWindows s) m) (take k (drop i rel))) \<and>
   currentPower (state_of (chain pn rel i k (Inr s))) = currentPower s"
proof (induction k arbitrary: i s)
  case 0
  then show ?case by simp
next
  case (Suc k)
  show ?case
  proof (cases "i < length rel")
    case False
    then obtain s1 where s1: "showNext pn rel i s = Inr s1" "chatWindows s1 = chatWindows s"
      "currentPower s1 = currentPower s"
      using showNext_done[of rel i pn s] by auto
    from False have e: "take k (drop (Suc i) rel) = []" by simp
    from Suc.IH[of "Suc i" s1] s1 e False show ?thesis by (simp add: take_Suc_drop)
  next
    case True
    show ?thesis
    proof (cases "inherited (currentPower s) (chatWindows s) (rel ! i)")
      case inh: True
      with True show ?thesis by (simp add: take_Suc_drop showNext_inherited)
    next
      case ninh: False
      from showNext_returns[OF True ninh, of pn] obtain s1 where
        s1: "showNext pn rel i s = Inr s1"
        "chatWindows s1 = add_cw (currentPower s) pn (chatWindows s) (rel ! i)"
        "currentPower s1 = currentPower s" by blast
      from Suc.IH[of "Suc i" s1] s1 True ninh show ?thesis by (simp add: take_Suc_drop)
    qed
  qed
qed

lemma chain_settled:
  "\<forall>m\<in>set (takeWhile (\<lambda>m. \<not> inherited (currentPower s) (chatWindows s) m) (take k (drop i rel))).
      settled (currentPower s) (chatWindows s) m \<Longrightarrow>
   effects (state_of (chain pn rel i k (Inr s))) = effects s \<and>
   chatWindows (state_of (chain pn rel i k (Inr s))) = chatWindows s"
proof (induction k arbitrary: i s)
  case 0
  then show ?case by simp
next
  case (Suc k)
  show ?case
  proof (cases "i < length rel")
    case False
    then obtain s1 where s1: "showNext pn rel i s = Inr s1" "chatWindows s1 = chatWindows s"
      "currentPower s1 = currentPower s" "effects s1 = effects s"
      using showNext_done[of rel i pn s] by auto
    from False have e: "take k (drop (Suc i) rel) = []" by simp
    from Suc.IH[of s1 "Suc i"] s1 e show ?thesis by simp
  next
    case True
    show ?thesis
    proof (cases "inherited (currentPower s) (chatWindows s) (rel ! i)")
      case inh: True
      with True show ?thesis by (simp add: showNext_inherited)
    next
      case ninh: False
      with Suc.prems True have st: "settled (currentPower s) (chatWindows s) (rel ! i)"
        and rest: "\<forall>m\<in>set (takeWhile (\<lambda>m. \<not> inherited (currentPower s) (chatWindows s) m)
                     (take k (drop (Suc i) rel))). settled (currentPower s) (chatWindows s) m"
        by (simp_all add: take_Suc_drop)
      let ?s1 = "snd (setTimeout (ShowNextCb pn rel (Suc i)) (playbackSpeed s * 3) s)"
      have sn: "showNext pn rel i s = Inr ?s1" using True st by (rule showNext_settled)
      from rest have "\<forall>m\<in>set (takeWhile (\<lambda>m. \<not> inherited (currentPower ?s1) (chatWindows ?s1) m)
                     (take k (drop (Suc i) rel))). settled (currentPower ?s1) (chatWindows ?s1) m"
        by simp
      from Suc.IH[OF this] sn show ?thesis by simp
    qed
  qed
qed

lemma relevantMessages_empty: "messages ph = [] \<Longrightarrow> relevantMessages cp ph = []"
  by (simp add: relevantMessages_def)

lemma reveal_path_chain:
  "reveal_path ph s =
     (if messages ph = [] then s\<lparr>messagesPlaying := False\<rparr>
      else state_of (chain (name ph) (relevantMessages (currentPower s) ph) 0
                      (Suc (length (relevantMessages (currentPower s) ph)))
                      (Inr (s\<lparr>messagesPlaying := True\<rparr>))))"
  by (simp add: reveal_path_def updateChatWindows_def Let_def relevantMessages_empty)

lemma reveal_path_chat:
  "chatWindows (reveal_path ph s) =
     foldl (add_cw (currentPower s) (name ph)) (chatWindows s)
       (takeWhile (\<lambda>m. \<not> inherited (currentPower s) (chatWindows s) m)
          (relevantMessages (currentPower s) ph))"
proof (cases "messages ph = []")
  case True
  then show ?thesis by (simp add: reveal_path_chain relevantMessages_empty)
next
  case False
  let ?s0 = "s\<lparr>messagesPlaying := True\<rparr>"
  let ?rel = "relevantMessages (currentPower s) ph"
  from chain_chat[of "name ph" ?rel 0 "Suc (length ?rel)" ?s0] False
  show ?thesis by (simp add: reveal_path_chain)
qed

lemma reveal_path_currentPower [simp]: "currentPower (reveal_path ph s) = currentPower s"
proof (cases "messages ph = []")
  case True
  then show ?thesis by (simp add: reveal_path_chain)
next
  case False
  let ?s0 = "s\<lparr>messagesPlaying := True\<rparr>"
  let ?rel = "relevantMessages (currentPower s) ph"
  from chain_chat[of "name ph" ?rel 0 "Suc (length ?rel)" ?s0] False
  show ?thesis by (simp add: reveal_path_chain)
qed

lemma reveal_path_settled:
  assumes "\<forall>m\<in>set (takeWhile (\<lambda>m. \<not> inherited (currentPower s) (chatWindows s) m)
                     (relevantMessages (currentPower s) ph)).
             settled (currentPower s) (chatWindows s) m"
  shows "effects (reveal_path ph s) = effects s \<and> chatWindows (reveal_path ph s) = chatWindows s"
proof (cases "messages ph = []")
  case True
  then show ?thesis by (simp add: reveal_path_chain)
next
  case False
  let ?s0 = "s\<lparr>messagesPlaying := True\<rparr>"
  let ?rel = "relevantMessages (currentPower s) ph"
  have "\<forall>m\<in>set (takeWhile (\<lambda>m. \<not> inherited (currentPower ?s0) (chatWindows ?s0) m)
                     (take (Suc (length ?rel)) (drop 0 ?rel))).
             settled (currentPower ?s0) (chatWindows ?s0) m"
    using assms by simp
  from chain_settled[OF this, of "name ph"] False show ?thesis
    by (simp add: reveal_path_chain)
qed

lemma reveal_path_prefix_settled:
  assumes "m \<in> set (takeWhile (\<lambda>m. \<not> inherited (currentPower s) (chatWindows s) m)
                     (relevantMessages (currentPower s) ph))"
  shows "settled (currentPower s) (chatWindows (reveal_path ph s)) m"
proof -
  from assms have "\<not> inherited (currentPower s) (chatWindows s) m"
    by (auto dest: set_takeWhileD)
  with assms show ?thesis by (simp add: reveal_path_chat foldl_add_cw_settles)
qed

lemma reveal_path_inherited [simp]:
  "inherited (currentPower s) (chatWindows (reveal_path ph s)) m = inherited (currentPower s) (chatWindows s) m"
  by (simp add: reveal_path_chat)

section \<open>A timeout that fires when due\<close>

text \<open>
  A timeout armed with a fresh handle and fired at its due time runs its callback in the
  state that armed it, with the handle counter and the clock moved on.  So the
  callbacks of a reveal chain are \<^verbatim>\<open>showNext\<close> at successive indices, as long as no step
  throws; a step that throws leaves the timer queue as it found it.
\<close>

lemma find_append_fresh:
  "\<forall>t \<in> set ts. \<not> P t \<Longrightarrow> P x \<Longrightarrow> find P (ts @ [x]) = Some x"
  by (induction ts) simp_all

lemma fire_armed_timeout:
  assumes "\<forall>t \<in> set (timers s). handle t \<noteq> next_handle s"
  shows "fire (next_handle s) ((snd (setTimeout cb d s))\<lparr>now := now s + d\<rparr>)
           = Some (state_of (run_callback cb (s\<lparr>next_handle := Suc (next_handle s), now := now s + d\<rparr>)))"
proof -
  let ?t = "\<lparr>handle = next_handle s, due = now s + d, callback = cb\<rparr>"
  have f: "find (\<lambda>t. handle t = next_handle s) (timers s @ [?t]) = Some ?t"
    using assms by (intro find_append_fresh) simp_all
  have g: "filter (\<lambda>t. handle t \<noteq> next_handle s) (timers s) = timers s"
    using assms by (simp add: filter_id_conv)
  show ?thesis
    by (simp add: fire_def setTimeout_def clearTimeout_def f g)
qed

lemma fire_next_showNext:
  assumes "\<forall>t \<in> set (timers s). handle t \<noteq> next_handle s" "index < length rel"
    and "\<not> inherited (currentPower s) (chatWindows s) (rel ! index)"
  shows "fire (next_handle s) ((state_of (showNext pn rel index s))\<lparr>now := now s + playbackSpeed s * 3\<rparr>)
           = Some (state_of (showNext pn rel (Suc index)
                    ((state_of (reveal pn (rel ! index) s))\<lparr>next_handle := Suc (next_handle s),
                                                 now := now s + playbackSpeed s * 3\<rparr>)))"
proof -
  from reveal_returns[OF assms(3), of pn] obtain r where
    r: "reveal pn (rel ! index) s = Inr r" "timers r = timers s" "now r = now s"
      "playbackSpeed r = playbackSpeed s" "next_handle r = next_handle s"
    by blast
  have a: "\<forall>t \<in> set (timers r). handle t \<noteq> next_handle r" using assms(1) r by simp
  from fire_armed_timeout[where s=r and cb="ShowNextCb pn rel (Suc index)" and d="playbackSpeed r * 3", OF a] assms(2)
  show ?thesis by (simp add: showNext_def r run_callback_def)
qed

section \<open>Revealing a phase twice\<close>

text \<open>
  C1.  Running the reveal path of a phase a second time, from the same viewpoint, leaves
  every chat window as the first run left it and nods no head.  The first run appends
  to each window exactly as many elements as it records new identifiers there, so no
  identifier gets a second element.  In the second run a step whose message is recorded
  in the seen-set of its window does nothing but arm the timeout of the next step, and
  so does every step up to the first message, if there is one, whose bucket reads a
  member of \<^verbatim>\<open>Object.prototype\<close>: there both runs end by the type error, before anything
  is written.
\<close>

theorem reveal_path_idempotent:
  "chatWindows (reveal_path ph (reveal_path ph s)) = chatWindows (reveal_path ph s) \<and>
   effects (reveal_path ph (reveal_path ph s)) = effects (reveal_path ph s) \<and>
   (\<forall>b w. chatWindows s b = Some w \<longrightarrow>
      (\<exists>w'. chatWindows (reveal_path ph s) b = Some w' \<and>
            seenMessages w \<subseteq> seenMessages w' \<and>
            length (messagesContainer w') =
              length (messagesContainer w) + card (seenMessages w' - seenMessages w))) \<and>
   (\<forall>index < length (relevantMessages (currentPower s) ph). \<forall>w.
      chatWindows (reveal_path ph s)
        (targetPower (currentPower s) (relevantMessages (currentPower s) ph ! index)) = Some w \<and>
      msgId (relevantMessages (currentPower s) ph ! index) \<in> seenMessages w \<longrightarrow>
      showNext (name ph) (relevantMessages (currentPower s) ph) index (reveal_path ph s) =
        Inr (snd (setTimeout (ShowNextCb (name ph) (relevantMessages (currentPower s) ph) (Suc index))
               (playbackSpeed (reveal_path ph s) * 3) (reveal_path ph s)))) \<and>
   (\<forall>index < length (relevantMessages (currentPower s) ph).
      (\<forall>m \<in> set (take (Suc index) (relevantMessages (currentPower s) ph)).
         get_window (chatWindows s) (targetPower (currentPower s) m) \<noteq> Inherited) \<longrightarrow>
      showNext (name ph) (relevantMessages (currentPower s) ph) index (reveal_path ph s) =
        Inr (snd (setTimeout (ShowNextCb (name ph) (relevantMessages (currentPower s) ph) (Suc index))
               (playbackSpeed (reveal_path ph s) * 3) (reveal_path ph s))))"
proof -
  let ?s1 = "reveal_path ph s"
  let ?rel = "relevantMessages (currentPower s) ph"
  let ?pre = "takeWhile (\<lambda>m. \<not> inherited (currentPower s) (chatWindows s) m) ?rel"
  have st: "\<forall>m\<in>set ?pre. settled (currentPower ?s1) (chatWindows ?s1) m"
    by (simp add: reveal_path_prefix_settled)
  then have "\<forall>m\<in>set (takeWhile (\<lambda>m. \<not> inherited (currentPower ?s1) (chatWindows ?s1) m)
                       (relevantMessages (currentPower ?s1) ph)).
               settled (currentPower ?s1) (chatWindows ?s1) m"
    by simp
  from reveal_path_settled[OF this]
  have a: "chatWindows (reveal_path ph ?s1) = chatWindows ?s1" "effects (reveal_path ph ?s1) = effects ?s1"
    by simp_all
  have b: "\<forall>b w. chatWindows s b = Some w \<longrightarrow>
      (\<exists>w'. chatWindows (reveal_path ph s) b = Some w' \<and>
            seenMessages w \<subseteq> seenMessages w' \<and>
            length (messagesContainer w') =
              length (messagesContainer w) + card (seenMessages w' - seenMessages w))"
    using foldl_add_cw_grows by (fastforce simp: reveal_path_chat grows_def)
  have c: "showNext (name ph) ?rel index ?s1 =
        Inr (snd (setTimeout (ShowNextCb (name ph) ?rel (Suc index)) (playbackSpeed ?s1 * 3) ?s1))"
    if "index < length ?rel" "chatWindows ?s1 (targetPower (currentPower s) (?rel ! index)) = Some w"
      "msgId (?rel ! index) \<in> seenMessages w" for index w
  proof -
    from that(2,3) have "settled (currentPower ?s1) (chatWindows ?s1) (?rel ! index)"
      by (simp add: settled_def get_window_def)
    with that(1) show ?thesis by (simp add: showNext_settled)
  qed
  have d: "showNext (name ph) ?rel index ?s1 =
        Inr (snd (setTimeout (ShowNextCb (name ph) ?rel (Suc index)) (playbackSpeed ?s1 * 3) ?s1))"
    if i: "index < length ?rel"
      and h: "\<forall>m \<in> set (take (Suc index) ?rel). get_window (chatWindows s) (targetPower (currentPower s) m) \<noteq> Inherited"
    for index
  proof -
    let ?P = "\<lambda>m. \<not> inherited (currentPower s) (chatWindows s) m"
    from h have all: "\<And>m. m \<in> set (take (Suc index) ?rel) \<Longrightarrow> ?P m"
      by (simp add: inherited_def)
    have "takeWhile ?P (take (Suc index) ?rel @ drop (Suc index) ?rel) =
            take (Suc index) ?rel @ takeWhile ?P (drop (Suc index) ?rel)"
      using all by (rule takeWhile_append2)
    then have p: "?pre = take (Suc index) ?rel @ takeWhile ?P (drop (Suc index) ?rel)"
      by (simp only: append_take_drop_id)
    have "?rel ! index \<in> set (take (Suc index) ?rel)"
      using i by (simp add: take_Suc_conv_app_nth)
    then have "?rel ! index \<in> set ?pre" by (subst p) simp
    with st have "settled (currentPower ?s1) (chatWindows ?s1) (?rel ! index)" by blast
    with i show ?thesis by (simp add: showNext_settled)
  qed
  show ?thesis using a b c d by blast
qed

theorem reveal_path_idempotent_witness:
  "chatWindows ex_loaded ''GLOBAL'' = Some ex_window \<and>
   0 < length (relevantMessages (currentPower ex_loaded) ex_phase0) \<and>
   get_window (chatWindows ex_loaded)
     (targetPower (currentPower ex_loaded) (relevantMessages (currentPower ex_loaded) ex_phase0 ! 0)) \<noteq> Inherited \<and>
   chatWindows (reveal_path ex_phase0 (reveal_path ex_phase0 ex_loaded))
     = chatWindows (reveal_path ex_phase0 ex_loaded) \<and>
   (\<exists>w'. chatWindows (reveal_path ex_phase0 ex_loaded) ''GLOBAL'' = Some w' \<and>
         msgId ex_hi \<in> seenMessages w' \<and>
         length (messagesContainer w') = card (seenMessages w')) \<and>
   showNext (name ex_phase0) (relevantMessages (currentPower ex_loaded) ex_phase0) 0
     (reveal_path ex_phase0 ex_loaded) =
     Inr (snd (setTimeout (ShowNextCb (name ex_phase0) (relevantMessages (currentPower ex_loaded) ex_phase0) (Suc 0))
            (playbackSpeed (reveal_path ex_phase0 ex_loaded) * 3) (reveal_path ex_phase0 ex_loaded)))"
proof -
  let ?rel = "relevantMessages (currentPower ex_loaded) ex_phase0"
  have cp: "currentPower ex_loaded = ''FRANCE''"
    by (simp add: ex_loaded_def loadGame_def page_init_def displayInitialPhase_def
        displaySupplyCenters_def displayUnit_def unit_defs ex_phase0_def ex_phase1_def Let_def)
  have rel: "?rel = [ex_hi]"
    by (simp add: cp ex_phase0_def ex_hi_def relevantMessages_def)
  have h1: "chatWindows ex_loaded ''GLOBAL'' = Some ex_window"
    by (simp add: ex_loaded_def ex_phase0_def ex_phase1_def ex_hi_def ex_window_def
        page_defs chat_defs unit_defs Let_def)
  have h2: "0 < length ?rel" by (simp add: rel)
  have tp: "targetPower (currentPower ex_loaded) (?rel ! 0) = ''GLOBAL''"
    by (simp add: rel targetPower_def ex_hi_def)
  have h3: "get_window (chatWindows ex_loaded) (targetPower (currentPower ex_loaded) (?rel ! 0)) \<noteq> Inherited"
    using h1 by (simp add: tp)
  have h3': "\<forall>m \<in> set (take (Suc 0) ?rel).
      get_window (chatWindows ex_loaded) (targetPower (currentPower ex_loaded) m) \<noteq> Inherited"
    using h3 by (simp add: rel)
  note t = reveal_path_idempotent[of ex_phase0 ex_loaded]
  from t have a: "chatWindows (reveal_path ex_phase0 (reveal_path ex_phase0 ex_loaded))
     = chatWindows (reveal_path ex_phase0 ex_loaded)"
    by blast
  from t h1 obtain w' where w': "chatWindows (reveal_path ex_phase0 ex_loaded) ''GLOBAL'' = Some w'"
    "length (messagesContainer w') =
       length (messagesContainer ex_window) + card (seenMessages w' - seenMessages ex_window)"
    by blast
  have "settled (currentPower ex_loaded) (chatWindows (reveal_path ex_phase0 ex_loaded)) ex_hi"
    using reveal_path_prefix_settled[of ex_hi ex_loaded ex_phase0] h3 rel
    by (simp add: inherited_def)
  with w'(1) have seen: "msgId ex_hi \<in> seenMessages w'"
    using tp rel by (simp add: settled_def)
  from w' seen have e: "\<exists>w'. chatWindows (reveal_path ex_phase0 ex_loaded) ''GLOBAL'' = Some w' \<and>
         msgId ex_hi \<in> seenMessages w' \<and>
         length (messagesContainer w') = card (seenMessages w')"
    by (auto simp: ex_window_def)
  from t h2 h3' have c: "showNext (name ex_phase0) ?rel 0 (reveal_path ex_phase0 ex_loaded) =
     Inr (snd (setTimeout (ShowNextCb (name ex_phase0) ?rel (Suc 0))
            (playbackSpeed (reveal_path ex_phase0 ex_loaded) * 3) (reveal_path ex_phase0 ex_loaded)))"
    by blast
  from h1 h2 h3 a e c show ?thesis by blast
qed

section \<open>A message without a chat window\<close>

text \<open>
  When \<^verbatim>\<open>chatWindows[targetPower]\<close> reads \<^verbatim>\<open>undefined\<close> for the message at \<open>index\<close>,
  \<^verbatim>\<open>addMessageToChat\<close> returns \<^verbatim>\<open>undefined\<close> and leaves the windows alone, and the step
  \<^verbatim>\<open>showNext\<close> changes nothing but the timer queue, where it arms the next step.
\<close>

lemma absent_window_dropped:
  assumes "index < length rel"
    and "get_window (chatWindows s) (targetPower (currentPower s) (rel ! index)) = Absent"
  shows "addMessageToChat (currentPower s) (rel ! index) phaseName (chatWindows s) = Inr (None, chatWindows s) \<and>
         showNext phaseName rel index s =
           Inr (s\<lparr>timers := timers s @
                [\<lparr>handle = next_handle s, due = now s + playbackSpeed s * 3,
                  callback = ShowNextCb phaseName rel (Suc index)\<rparr>],
             next_handle := Suc (next_handle s)\<rparr>)"
proof -
  have a: "addMessageToChat (currentPower s) (rel ! index) phaseName (chatWindows s) = Inr (None, chatWindows s)"
    using assms(2) by (rule addMessageToChat_Absent)
  have "reveal phaseName (rel ! index) s = Inr s"
    using a by (simp add: reveal_def)
  then show ?thesis using a assms(1) by (simp add: showNext_def setTimeout_def)
qed

text \<open>
  C10 fails on the code.  The guard \<^verbatim>\<open>if (!chatWindows[targetPower]) return\<close> is meant to
  drop a message whose bucket has no chat window, but \<^verbatim>\<open>chatWindows\<close> is a plain object:
  for the sender \<^verbatim>\<open>constructor\<close> the read yields \<^verbatim>\<open>Object.prototype.constructor\<close>, the guard
  lets the message pass, and \<^verbatim>\<open>chatWindows[targetPower].seenMessages.has\<close> throws.  The
  step ends there: no timeout for the next message is armed, \<^verbatim>\<open>messagesPlaying\<close> stays
  set, the message \<^verbatim>\<open>Hi\<close> behind it is never revealed and no unit animation starts.
\<close>

theorem prototype_named_bucket_throws:
  "relevantMessages (currentPower ex_loaded_ctor) ex_phase_ctor = [ex_ctor, ex_hi] \<and>
   targetPower (currentPower ex_loaded_ctor) ex_ctor = ''constructor'' \<and>
   chatWindows ex_loaded_ctor ''constructor'' = None \<and>
   addMessageToChat (currentPower ex_loaded_ctor) ex_ctor ''S1901M'' (chatWindows ex_loaded_ctor)
     = Inl TypeError \<and>
   showNext ''S1901M'' [ex_ctor, ex_hi] 0 ex_loaded_ctor = Inl (TypeError, ex_loaded_ctor) \<and>
   thrown (togglePlayback ex_loaded_ctor) = Some TypeError \<and>
   map_option timers (run [ClickPlay] ex_loaded_ctor) = Some [] \<and>
   map_option messagesPlaying (run [ClickPlay] ex_loaded_ctor) = Some True \<and>
   map_option timers (run [ClickPlay, Wait 6000, Frame] ex_loaded_ctor) = Some [] \<and>
   map_option unitAnimations (run [ClickPlay, Wait 6000, Frame] ex_loaded_ctor) = Some [] \<and>
   map_option effects (run [ClickPlay, Wait 6000, Frame] ex_loaded_ctor) = Some [] \<and>
   map_option (\<lambda>s. chatWindows s ''GLOBAL'') (run [ClickPlay, Wait 6000, Frame] ex_loaded_ctor)
     = Some (Some ex_window)"
  by (simp add: ex_loaded_ctor_def ex_phase_ctor_def ex_ctor_def ex_phase1_def ex_hi_def ex_window_def
      thrown_def page_defs chat_defs unit_defs timer_defs Let_def)

section \<open>The phase index of the page\<close>

lemma clearTimeout_fields [simp]:
  "gameData (clearTimeout h s) = gameData s"
  "currentPhaseIndex (clearTimeout h s) = currentPhaseIndex s"
  "isPlaying (clearTimeout h s) = isPlaying s"
  "messagesPlaying (clearTimeout h s) = messagesPlaying s"
  "unitAnimations (clearTimeout h s) = unitAnimations s"
  "playbackTimer (clearTimeout h s) = playbackTimer s"
  "chatWindows (clearTimeout h s) = chatWindows s"
  "effects (clearTimeout h s) = effects s"
  by (simp_all add: clearTimeout_def)

lemma showNext_index [simp]:
  "gameData (state_of (showNext pn rel i s)) = gameData s"
  "currentPhaseIndex (state_of (showNext pn rel i s)) = currentPhaseIndex s"
proof -
  have "gameData (state_of (showNext pn rel i s)) = gameData s \<and>
        currentPhaseIndex (state_of (showNext pn rel i s)) = currentPhaseIndex s"
  proof (cases "length rel \<le> i")
    case True
    then show ?thesis by (simp add: showNext_def Let_def)
  next
    case False
    show ?thesis
    proof (cases "inherited (currentPower s) (chatWindows s) (rel ! i)")
      case True
      with False show ?thesis by (simp add: showNext_inherited)
    next
      case ninh: False
      from reveal_returns[OF ninh, of pn] obtain s1 where
        "reveal pn (rel ! i) s = Inr s1" "gameData s1 = gameData s"
        "currentPhaseIndex s1 = currentPhaseIndex s" by blast
      with False show ?thesis by (simp add: showNext_def)
    qed
  qed
  then show "gameData (state_of (showNext pn rel i s)) = gameData s"
    "currentPhaseIndex (state_of (showNext pn rel i s)) = currentPhaseIndex s"
    by simp_all
qed

lemma forEach_reveal_index:
  "gameData (state_of (forEach_reveal pn ms s)) = gameData s \<and>
   currentPhaseIndex (state_of (forEach_reveal pn ms s)) = currentPhaseIndex s"
proof (induction ms arbitrary: s)
  case Nil
  then show ?case by simp
next
  case (Cons m ms)
  show ?case
  proof (cases "inherited (currentPower s) (chatWindows s) m")
    case True
    then show ?thesis by (simp add: reveal_inherited)
  next
    case ninh: False
    from reveal_returns[OF ninh, of pn] obtain s1 where
      "reveal pn m s = Inr s1" "gameData s1 = gameData s"
      "currentPhaseIndex s1 = currentPhaseIndex s" by blast
    with Cons.IH[of s1] show ?thesis by simp
  qed
qed

lemma updateChatWindows_index [simp]:
  "gameData (state_of (updateChatWindows ph b s)) = gameData s"
  "currentPhaseIndex (state_of (updateChatWindows ph b s)) = currentPhaseIndex s"
proof -
  let ?rel = "relevantMessages (currentPower s) ph"
  have f: "gameData (state_of (case forEach_reveal (name ph) ?rel s of
                                 Inl x \<Rightarrow> Inl x
                               | Inr s1 \<Rightarrow> Inr (s1\<lparr>messagesPlaying := False\<rparr>))) = gameData s \<and>
           currentPhaseIndex (state_of (case forEach_reveal (name ph) ?rel s of
                                 Inl x \<Rightarrow> Inl x
                               | Inr s1 \<Rightarrow> Inr (s1\<lparr>messagesPlaying := False\<rparr>))) = currentPhaseIndex s"
    using forEach_reveal_index[of "name ph" ?rel s]
    by (cases "forEach_reveal (name ph) ?rel s") auto
  show "gameData (state_of (updateChatWindows ph b s)) = gameData s"
    "currentPhaseIndex (state_of (updateChatWindows ph b s)) = currentPhaseIndex s"
    using f by (simp_all add: updateChatWindows_def Let_def)
qed

lemma animateUnitsForPhase_index [simp]:
  "gameData (animateUnitsForPhase c p s) = gameData s"
  "currentPhaseIndex (animateUnitsForPhase c p s) = currentPhaseIndex s"
  by (simp_all add: animateUnitsForPhase_def Let_def)

lemma displayPhaseWithAnimation_index [simp]:
  "gameData (state_of (displayPhaseWithAnimation i s)) = gameData s"
  "currentPhaseIndex (state_of (displayPhaseWithAnimation i s)) = currentPhaseIndex s"
  by (simp_all add: displayPhaseWithAnimation_def Let_def split: option.splits)

lemma forEach_animations_index [simp]:
  "gameData (forEach_animations t i n s) = gameData s"
  "currentPhaseIndex (forEach_animations t i n s) = currentPhaseIndex s"
  by (induction t i n s rule: forEach_animations.induct) (simp_all add: Let_def)

lemma animate_index [simp]:
  "gameData (animate s) = gameData s"
  "currentPhaseIndex (animate s) = currentPhaseIndex s"
  by (auto simp: animate_def start_pending_units_def Let_def split: option.splits if_splits)

lemma togglePlayback_index [simp]:
  "gameData (state_of (togglePlayback s)) = gameData s"
  "currentPhaseIndex (state_of (togglePlayback s)) = currentPhaseIndex s"
  by (simp_all add: togglePlayback_def Let_def split: option.splits)

lemma speedSelector_change_index [simp]:
  "gameData (speedSelector_change v s) = gameData s"
  "currentPhaseIndex (speedSelector_change v s) = currentPhaseIndex s"
  by (simp_all add: speedSelector_change_def Let_def)

lemma advanceToNextPhase_index:
  "gameData (state_of (advanceToNextPhase s)) = gameData s"
  "gameData s = Some phases \<Longrightarrow>
   currentPhaseIndex (state_of (advanceToNextPhase s)) =
     (if int (length phases) - 1 \<le> currentPhaseIndex s then 0 else currentPhaseIndex s + 1)"
  by (simp_all add: advanceToNextPhase_def Let_def split: option.splits)

lemma prevBtn_click_index:
  "gameData (state_of (prevBtn_click s)) = gameData s"
  "currentPhaseIndex (state_of (prevBtn_click s)) =
     (if 0 < currentPhaseIndex s then currentPhaseIndex s - 1 else currentPhaseIndex s)"
  by (simp_all add: prevBtn_click_def Let_def)

lemma nextBtn_click_index:
  "gameData (state_of (nextBtn_click s)) = gameData s"
  "gameData s = Some phases \<Longrightarrow>
   currentPhaseIndex (state_of (nextBtn_click s)) =
     (if currentPhaseIndex s < int (length phases) - 1 then currentPhaseIndex s + 1 else currentPhaseIndex s)"
  by (simp_all add: nextBtn_click_def Let_def split: option.splits)

lemma step_index_ok:
  assumes "index_ok phases s" "step e s = Some s'"
  shows "index_ok phases s'"
proof (cases e)
  case (Fire h)
  with assms(2) have "\<exists>cb. s' = state_of (run_callback cb (clearTimeout h s))"
    by (fastforce simp: fire_def split: option.splits if_splits)
  then obtain cb where t: "s' = state_of (run_callback cb (clearTimeout h s))" ..
  show ?thesis
  proof (cases cb)
    case AdvanceCb
    with t assms(1) show ?thesis
      by (auto simp: index_ok_def run_callback_def advanceToNextPhase_index)
  next
    case (ShowNextCb pn rel i)
    with t assms(1) show ?thesis
      by (simp add: index_ok_def run_callback_def)
  qed
next
  case ClickPrev
  with assms show ?thesis
    by (auto simp: index_ok_def prevBtn_click_index split: if_splits)
next
  case ClickNext
  with assms show ?thesis
    by (auto simp: index_ok_def nextBtn_click_index split: if_splits)
qed (use assms in \<open>auto simp: index_ok_def split: if_splits\<close>)

lemma run_index_ok:
  "index_ok phases s \<Longrightarrow> run evs s = Some s' \<Longrightarrow> index_ok phases s'"
proof (induction evs arbitrary: s)
  case Nil
  then show ?case by simp
next
  case (Cons e evs)
  then show ?case by (auto split: option.splits dest: step_index_ok)
qed

lemma displayUnit_fold_index:
  "gameData (foldl (displayUnit pw) s us) = gameData s \<and>
   currentPhaseIndex (foldl (displayUnit pw) s us) = currentPhaseIndex s"
  by (induction us arbitrary: s) (simp_all add: displayUnit_def Let_def split: option.splits prod.splits)

lemma displayUnits_fold_index:
  "gameData (foldl (\<lambda>st (pw, unitArr). foldl (displayUnit pw) st unitArr) s es) = gameData s \<and>
   currentPhaseIndex (foldl (\<lambda>st (pw, unitArr). foldl (displayUnit pw) st unitArr) s es) = currentPhaseIndex s"
  by (induction es arbitrary: s) (simp_all add: displayUnit_fold_index split: prod.splits)

lemma loadGame_index_ok: "phases \<noteq> [] \<Longrightarrow> index_ok phases (loadGame phases s)"
  by (simp add: index_ok_def loadGame_def displayInitialPhase_def displaySupplyCenters_def Let_def
      displayUnits_fold_index split: option.splits)

section \<open>The controller of phase.ts\<close>

lemma setPhase_rejects:
  "index < 0 \<or> int (length (gs_phases g)) \<le> index \<Longrightarrow>
   setPhase imp index g = (Inl (InvalidPhaseIndex index (length (gs_phases g))), g)"
  by (auto simp: setPhase_def Let_def)

lemma displayPhase_phases:
  "keeps_replay imp \<Longrightarrow> phaseIndex g < int (length (gs_phases g)) \<Longrightarrow>
   gs_phases (displayPhase imp b g) = gs_phases g"
  by (simp add: displayPhase_def keeps_replay_def Let_def)

lemma setPhase_accepts:
  assumes "keeps_replay imp" "0 \<le> index" "index < int (length (gs_phases g))"
  shows "fst (setPhase imp index g) = Inr () \<and>
         phaseIndex (snd (setPhase imp index g)) = index \<and>
         gs_phases (snd (setPhase imp index g)) = gs_phases g"
proof (cases "index - phaseIndex g \<noteq> 1")
  case True
  with assms show ?thesis
    by (simp add: setPhase_def Let_def keeps_replay_def)
next
  case False
  then have i: "phaseIndex g + 1 = index" by simp
  show ?thesis
  proof (cases "index = int (length (gs_phases g)) - 1")
    case True
    with assms False show ?thesis
      by (simp add: setPhase_def Let_def displayFinalPhase_def)
  next
    case False
    with assms i show ?thesis
      by (simp add: setPhase_def Let_def displayPhase_phases)
  qed
qed

lemma setPhase_index_ok:
  assumes "keeps_replay imp" "gs_index_ok g"
  shows "gs_index_ok (snd (setPhase imp index g)) \<and> gs_phases (snd (setPhase imp index g)) = gs_phases g"
proof (cases "index < 0 \<or> int (length (gs_phases g)) \<le> index")
  case True
  then show ?thesis using assms(2) by (simp add: setPhase_rejects)
next
  case False
  then have "0 \<le> index" "index < int (length (gs_phases g))" by simp_all
  from setPhase_accepts[OF assms(1) this] show ?thesis
    using False by (simp add: gs_index_ok_def)
qed

lemma gs_setTimeout_fields [simp]:
  "gs_phases (gs_setTimeout cb d g) = gs_phases g"
  "phaseIndex (gs_setTimeout cb d g) = phaseIndex g"
  by (simp_all add: gs_setTimeout_def)

lemma shown_moment:
  assumes "keeps_replay imp"
  shows "gs_phases (showTwoPowerConversation imp m (g\<lparr>board := b\<rparr>)) = gs_phases g"
    "phaseIndex (showTwoPowerConversation imp m (g\<lparr>board := b\<rparr>)) = phaseIndex g"
  using assms by (simp_all add: keeps_replay_def)

lemma nextPhase_index_ok:
  assumes "keeps_replay imp" "gs_index_ok g"
  shows "gs_index_ok (snd (nextPhase imp g)) \<and> gs_phases (snd (nextPhase imp g)) = gs_phases g"
proof -
  have k: "gs_index_ok (showTwoPowerConversation imp m (g\<lparr>board := b\<rparr>))"
    "gs_phases (showTwoPowerConversation imp m (g\<lparr>board := b\<rparr>)) = gs_phases g" for m b
    using assms shown_moment[OF assms(1), where m=m and g=g and b=b] by (simp_all add: gs_index_ok_def)
  have t: "gs_index_ok (gs_setTimeout cb d g') = gs_index_ok g'" for cb d and g' :: "'a gameState"
    by (simp add: gs_index_ok_def)
  show ?thesis
    using assms setPhase_index_ok[OF assms(1)] k
    by (auto simp: nextPhase_def Let_def case_prod_beta t split: option.splits)
qed

lemma nextPhase_at_last:
  assumes "phaseIndex g = int (length (gs_phases g)) - 1" "gs_phases g \<noteq> []"
    "\<not> isDisplayingMoment g" "has_momentsData g"
    "checkPhaseHasMoment imp g (name (gs_phases g ! nat (phaseIndex g))) = None"
  shows "nextPhase imp g = (Moved (Inl (InvalidPhaseIndex (phaseIndex g + 1) (length (gs_phases g)))), g)"
  using assms by (simp add: nextPhase_def setPhase_rejects)

lemma nextPhase_last_stays:
  assumes "keeps_replay imp" "gs_phases g \<noteq> []" "phaseIndex g = int (length (gs_phases g)) - 1"
  shows "phaseIndex (snd (nextPhase imp g)) = phaseIndex g \<and> fst (nextPhase imp g) \<noteq> Moved (Inr ())"
proof -
  have r: "setPhase imp (phaseIndex g + 1) g = (Inl (InvalidPhaseIndex (phaseIndex g + 1) (length (gs_phases g))), g)"
    using assms(3) by (simp add: setPhase_rejects)
  have k: "gs_phases (showTwoPowerConversation imp m (g\<lparr>board := b\<rparr>)) = gs_phases g"
    "phaseIndex (showTwoPowerConversation imp m (g\<lparr>board := b\<rparr>)) = phaseIndex g" for m b
    using shown_moment[OF assms(1), where m=m and g=g and b=b] by simp_all
  have r': "setPhase imp (phaseIndex g + 1) (showTwoPowerConversation imp m (g\<lparr>board := b\<rparr>)) =
     (Inl (InvalidPhaseIndex (phaseIndex g + 1) (length (gs_phases g))),
      showTwoPowerConversation imp m (g\<lparr>board := b\<rparr>))" for m b
    using setPhase_rejects[of "phaseIndex g + 1" "showTwoPowerConversation imp m (g\<lparr>board := b\<rparr>)" imp]
      assms(3) k[of m b]
    by simp
  show ?thesis
    using r r' k by (auto simp: nextPhase_def Let_def split: option.splits)
qed

lemma moment_over_index_ok:
  assumes "keeps_replay imp" "gs_index_ok (closeTwoPowerConversation imp g)"
  shows "gs_index_ok (snd (moment_over imp g))"
  using setPhase_index_ok[OF assms] by (simp add: moment_over_def Let_def)

lemma keeps_replay_example: "keeps_replay ex_externals"
  by (simp add: keeps_replay_def ex_externals_def)

section \<open>Jumping outside the replay\<close>

text \<open>
  C9.  A request \<^verbatim>\<open>_setPhase(index)\<close> with \<open>index\<close> below 0 or not below the number of
  phases throws the invalid-index error and leaves the whole \<^verbatim>\<open>gameState\<close> as it was:
  the phase index, the animation list, the timer variable, the pending timeouts and the
  board with its unit meshes.
\<close>

theorem setPhase_out_of_range_rejected:
  assumes "index < 0 \<or> int (length (gs_phases g)) \<le> index"
  shows "setPhase imp index g = (Inl (InvalidPhaseIndex index (length (gs_phases g))), g)"
  using assms by (rule setPhase_rejects)

theorem setPhase_out_of_range_rejected_witness:
  "(5 < (0::int) \<or> int (length (gs_phases (ex_game 0))) \<le> 5) \<and>
   setPhase ex_externals 5 (ex_game 0) = (Inl (InvalidPhaseIndex 5 2), ex_game 0) \<and>
   phaseIndex (snd (setPhase ex_externals 5 (ex_game 0))) = 0 \<and>
   gs_playbackTimer (snd (setPhase ex_externals 5 (ex_game 0))) = Some 7"
proof -
  have h: "5 < (0::int) \<or> int (length (gs_phases (ex_game 0))) \<le> 5"
    by (simp add: ex_game_def)
  from setPhase_out_of_range_rejected[OF h, of ex_externals] h show ?thesis
    by (simp add: ex_game_def)
qed

section \<open>Advancing past the last phase\<close>

text \<open>
  C5 fails on the code.  \<^verbatim>\<open>advanceToNextPhase\<close> of the playback loop wraps, as its comment
  says (\<^verbatim>\<open>If we've reached the end, loop back to the beginning\<close>): stepping the sample
  replay to its last phase and playing it on brings the index back to 0.  \<^verbatim>\<open>nextPhase\<close> of
  phase.ts calls \<^verbatim>\<open>_setPhase(phaseIndex + 1)\<close> whatever the index: at the last phase of
  the same replay the range check throws the invalid-index error and the index stays at
  1, where \<open>(1 + 1) mod 2 = 0\<close>.  The move deferred behind a moment ends the same way.
\<close>

theorem nextPhase_throws_at_last_phase:
  "phaseIndex (ex_game 1) = int (length (gs_phases (ex_game 1))) - 1 \<and>
   nextPhase ex_externals (ex_game 1) = (Moved (Inl (InvalidPhaseIndex 2 2)), ex_game 1) \<and>
   phaseIndex (snd (nextPhase ex_externals (ex_game 1)))
     \<noteq> (phaseIndex (ex_game 1) + 1) mod int (length (gs_phases (ex_game 1))) \<and>
   moment_over ex_externals (ex_game 1) = (Inl (InvalidPhaseIndex 2 2), ex_game 1) \<and>
   map_option currentPhaseIndex (run [ClickNext] ex_loaded) = Some 1 \<and>
   on_time ex_wrap ex_loaded \<and>
   map_option currentPhaseIndex (run ex_wrap ex_loaded) = Some 0 \<and>
   map_option advance_runs (run ex_wrap ex_loaded) = Some 1"
proof -
  have a: "phaseIndex (ex_game 1) = int (length (gs_phases (ex_game 1))) - 1 \<and>
     nextPhase ex_externals (ex_game 1) = (Moved (Inl (InvalidPhaseIndex 2 2)), ex_game 1) \<and>
     phaseIndex (snd (nextPhase ex_externals (ex_game 1)))
       \<noteq> (phaseIndex (ex_game 1) + 1) mod int (length (gs_phases (ex_game 1))) \<and>
     moment_over ex_externals (ex_game 1) = (Inl (InvalidPhaseIndex 2 2), ex_game 1)"
    by (simp add: nextPhase_def moment_over_def setPhase_def ex_game_def ex_externals_def Let_def)
  have b: "map_option currentPhaseIndex (run [ClickNext] ex_loaded) = Some 1 \<and>
     on_time ex_wrap ex_loaded \<and>
     map_option currentPhaseIndex (run ex_wrap ex_loaded) = Some 0 \<and>
     map_option advance_runs (run ex_wrap ex_loaded) = Some 1"
    by (simp add: ex_wrap_def ex_loaded_def ex_phase0_def ex_phase1_def ex_hi_def page_defs chat_defs
        unit_defs timer_defs Let_def event_on_time_def advance_runs_def)
  from a b show ?thesis by blast
qed

section \<open>The phase index stays inside the replay\<close>

text \<open>
  C6.  After a replay with at least one phase is loaded, every state the page reaches
  through waits, frames, timeouts and control events has \<open>0 \<le> currentPhaseIndex <\<close>
  the number of phases; this covers the wrapping advance and both step buttons.  Under
  phase.ts the same bound on \<^verbatim>\<open>phaseIndex\<close> is kept by a jump \<^verbatim>\<open>_setPhase(index)\<close> to any
  index, by \<^verbatim>\<open>nextPhase\<close> and by \<^verbatim>\<open>previousPhase\<close>, whether they move or throw.
\<close>

theorem phase_index_in_range:
  "(phases \<noteq> [] \<and> run evs (loadGame phases (page_init cd)) = Some s \<longrightarrow>
      gameData s = Some phases \<and> 0 \<le> currentPhaseIndex s \<and> currentPhaseIndex s < int (length phases)) \<and>
   (keeps_replay imp \<and> 0 \<le> phaseIndex g \<and> phaseIndex g < int (length (gs_phases g)) \<longrightarrow>
      (\<forall>g' \<in> {snd (setPhase imp index g), snd (nextPhase imp g), snd (previousPhase imp g)}.
         gs_phases g' = gs_phases g \<and> 0 \<le> phaseIndex g' \<and> phaseIndex g' < int (length (gs_phases g))))"
proof -
  have a: "gameData s = Some phases \<and> 0 \<le> currentPhaseIndex s \<and> currentPhaseIndex s < int (length phases)"
    if "phases \<noteq> []" "run evs (loadGame phases (page_init cd)) = Some s"
    using run_index_ok[OF loadGame_index_ok[OF that(1)] that(2)] by (simp add: index_ok_def)
  have b: "gs_phases g' = gs_phases g \<and> 0 \<le> phaseIndex g' \<and> phaseIndex g' < int (length (gs_phases g))"
    if "keeps_replay imp" "0 \<le> phaseIndex g \<and> phaseIndex g < int (length (gs_phases g))"
      "g' \<in> {snd (setPhase imp index g), snd (nextPhase imp g), snd (previousPhase imp g)}" for g'
  proof -
    have ok: "gs_index_ok g" using that(2) by (simp add: gs_index_ok_def)
    from that(3) setPhase_index_ok[OF that(1) ok, of index]
      setPhase_index_ok[OF that(1) ok, of "phaseIndex g - 1"] nextPhase_index_ok[OF that(1) ok]
    show ?thesis by (auto simp: previousPhase_def gs_index_ok_def)
  qed
  show ?thesis using a b by blast
qed

theorem phase_index_in_range_witness:
  "[ex_phase0, ex_phase1] \<noteq> [] \<and>
   (\<exists>s. run ex_wrap (loadGame [ex_phase0, ex_phase1] (page_init None)) = Some s \<and>
        currentPhaseIndex s = 0 \<and> effects s \<noteq> [] \<and>
        0 \<le> currentPhaseIndex s \<and> currentPhaseIndex s < 2) \<and>
   keeps_replay ex_externals \<and>
   phaseIndex (snd (setPhase ex_externals 1 (ex_game 0))) = 1 \<and>
   phaseIndex (snd (setPhase ex_externals 2 (ex_game 0))) = 0 \<and>
   phaseIndex (snd (previousPhase ex_externals (ex_game 0))) = 0 \<and>
   0 \<le> phaseIndex (snd (nextPhase ex_externals (ex_game 0))) \<and>
   phaseIndex (snd (nextPhase ex_externals (ex_game 0))) < 2"
proof -
  have r: "\<exists>s. run ex_wrap (loadGame [ex_phase0, ex_phase1] (page_init None)) = Some s \<and>
        currentPhaseIndex s = 0 \<and> effects s \<noteq> []"
    by (simp add: ex_wrap_def ex_phase0_def ex_phase1_def ex_hi_def page_defs chat_defs unit_defs timer_defs Let_def)
  then obtain s where s: "run ex_wrap (loadGame [ex_phase0, ex_phase1] (page_init None)) = Some s"
    "currentPhaseIndex s = 0" "effects s \<noteq> []" by blast
  have g: "0 \<le> phaseIndex (ex_game 0) \<and> phaseIndex (ex_game 0) < int (length (gs_phases (ex_game 0)))"
    by (simp add: ex_game_def)
  note t = phase_index_in_range[of "[ex_phase0, ex_phase1]" ex_wrap None s ex_externals "ex_game 0" 2]
  from t s(1) have a: "0 \<le> currentPhaseIndex s \<and> currentPhaseIndex s < 2" by simp
  from t g keeps_replay_example
  have b: "\<forall>g' \<in> {snd (setPhase ex_externals 2 (ex_game 0)), snd (nextPhase ex_externals (ex_game 0)),
            snd (previousPhase ex_externals (ex_game 0))}.
      0 \<le> phaseIndex g' \<and> phaseIndex g' < 2"
    by (simp add: ex_game_def)
  have c: "phaseIndex (snd (setPhase ex_externals 1 (ex_game 0))) = 1"
    "phaseIndex (snd (setPhase ex_externals 2 (ex_game 0))) = 0"
    "phaseIndex (snd (previousPhase ex_externals (ex_game 0))) = 0"
    by (simp_all add: previousPhase_def setPhase_def ex_game_def ex_externals_def displayPhase_def
        displayFinalPhase_def Let_def)
  from b have d: "0 \<le> phaseIndex (snd (nextPhase ex_externals (ex_game 0))) \<and>
      phaseIndex (snd (nextPhase ex_externals (ex_game 0))) < 2"
    by blast
  from s a c d keeps_replay_example show ?thesis by auto
qed

section \<open>The planner: counting and matching\<close>



lemma foldl_nested_flat:
  "foldl (\<lambda>a (pw, arr). foldl (f pw) a arr) a entries
     = foldl (\<lambda>a (pw, u). f pw a u) a (unit_pairs entries)"
proof (induction entries arbitrary: a)
  case Nil
  then show ?case by (simp add: unit_pairs_def)
next
  case (Cons e es)
  obtain pw arr where e: "e = (pw, arr)" by (cases e)
  have inner: "foldl (\<lambda>a (pw, u). f pw a u) a (map (Pair pw) arr) = foldl (f pw) a arr" for a
    by (induction arr arbitrary: a) simp_all
  have "unit_pairs (e # es) = map (Pair pw) arr @ unit_pairs es"
    by (simp add: unit_pairs_def e)
  then show ?case using Cons.IH inner by (simp add: e)
qed

lemma plan_unit_counts:
  "length (acc_anims (plan_unit cd t pw acc u)) =
     length (acc_anims acc) + (if unit_match u \<noteq> None then 1 else 0) \<and>
   length (acc_meshes (plan_unit cd t pw acc u)) =
     length (acc_meshes acc) + (if unit_match u \<noteq> None then 1 else 0) \<and>
   (\<exists>ms. acc_meshes (plan_unit cd t pw acc u) = acc_meshes acc @ ms)"
  by (auto simp: plan_unit_def Let_def split: option.splits)

lemma plan_fold_counts:
  "length (acc_anims (foldl (\<lambda>a (pw, u). plan_unit cd t pw a u) acc pus)) =
     length (acc_anims acc) + length (filter (\<lambda>u. unit_match u \<noteq> None) (map snd pus)) \<and>
   length (acc_meshes (foldl (\<lambda>a (pw, u). plan_unit cd t pw a u) acc pus)) =
     length (acc_meshes acc) + length (filter (\<lambda>u. unit_match u \<noteq> None) (map snd pus)) \<and>
   (\<exists>ms. acc_meshes (foldl (\<lambda>a (pw, u). plan_unit cd t pw a u) acc pus) = acc_meshes acc @ ms)"
proof (induction pus arbitrary: acc)
  case Nil
  then show ?case by simp
next
  case (Cons p pus)
  obtain pw u where p: "p = (pw, u)" by (cases p)
  from plan_unit_counts[of cd t pw acc u] Cons.IH[of "plan_unit cd t pw acc u"]
  show ?case by (auto simp: p)
qed

lemma map_snd_unit_pairs: "map snd (unit_pairs entries) = concat (map snd entries)"
  by (induction entries) (auto simp: unit_pairs_def comp_def)

lemma plan_units_counts:
  "length (acc_anims (plan_units cd t cur prv)) = well_formed_count cur \<and>
   length (acc_meshes (plan_units cd t cur prv)) = well_formed_count cur"
  using plan_fold_counts[of cd t _ "unit_pairs cur"]
  by (simp add: plan_units_def foldl_nested_flat map_snd_unit_pairs well_formed_count_def)



lemma hyphen_split:
  assumes "x \<notin> set a" "x \<notin> set c" "a @ x # b = c @ x # d"
  shows "a = c \<and> b = d"
proof -
  have "takeWhile (\<lambda>y. y \<noteq> x) (a @ x # b) = a" "takeWhile (\<lambda>y. y \<noteq> x) (c @ x # d) = c"
    using assms(1,2) by (auto simp: takeWhile_tail)
  with assms(3) have "a = c" by simp
  with assms(3) show ?thesis by simp
qed

lemma startsWith_key:
  assumes "CHR ''-'' \<notin> set q" "CHR ''-'' \<notin> set pw"
  shows "startsWith (unit_key q t l) (key_prefix pw ty) \<longleftrightarrow> q = pw \<and> t = ty"
proof
  assume "startsWith (unit_key q t l) (key_prefix pw ty)"
  then have "take (length (key_prefix pw ty)) (unit_key q t l) = key_prefix pw ty"
    by (simp add: startsWith_def)
  then have "unit_key q t l = key_prefix pw ty @ drop (length (key_prefix pw ty)) (unit_key q t l)"
    by (metis append_take_drop_id)
  then obtain r where "q @ CHR ''-'' # (t # CHR ''-'' # l) = pw @ CHR ''-'' # (ty # r)"
    by (auto simp: unit_key_def key_prefix_def)
  from hyphen_split[OF assms this] show "q = pw \<and> t = ty" by simp
next
  assume "q = pw \<and> t = ty"
  then show "startsWith (unit_key q t l) (key_prefix pw ty)"
    by (simp add: startsWith_def unit_key_def key_prefix_def)
qed

lemma unit_key_inj:
  assumes "CHR ''-'' \<notin> set q" "CHR ''-'' \<notin> set pw" "unit_key q t l = unit_key pw ty loc"
  shows "q = pw \<and> t = ty \<and> l = loc"
proof -
  from assms(3) have "q @ CHR ''-'' # (t # CHR ''-'' # l) = pw @ CHR ''-'' # (ty # CHR ''-'' # loc)"
    by (simp add: unit_key_def)
  from hyphen_split[OF assms(1,2) this] show ?thesis by simp
qed

lemma obj_assign_fresh: "k \<notin> fst ` set tbl \<Longrightarrow> obj_assign k v tbl = tbl @ [(k, v)]"
  by (induction tbl) auto

lemma plain_simps [simp]:
  "plain []"
  "plain ((q, t, l) # us) \<longleftrightarrow> CHR ''-'' \<notin> set q \<and> plain us"
  "plain (us @ vs) \<longleftrightarrow> plain us \<and> plain vs"
  by (auto simp: plain_def)

lemma table_of_simps [simp]:
  "table_of cd [] = []"
  "table_of cd ((q, t, l) # us) = (unit_key q t l, getProvincePosition cd l) # table_of cd us"
  "table_of cd (us @ vs) = table_of cd us @ table_of cd vs"
  by (simp_all add: table_of_def)

lemma key_not_in_table:
  assumes "plain us" "CHR ''-'' \<notin> set pw" "(pw, ty, loc) \<notin> set us"
  shows "unit_key pw ty loc \<notin> fst ` set (table_of cd us)"
proof
  assume "unit_key pw ty loc \<in> fst ` set (table_of cd us)"
  then obtain q t l where m: "(q, t, l) \<in> set us" "unit_key q t l = unit_key pw ty loc"
    by (auto simp: table_of_def)
  from m(1) assms(1) have "CHR ''-'' \<notin> set q" by (auto simp: plain_def)
  from unit_key_inj[OF this assms(2) m(2)] m(1) assms(3) show False by simp
qed

lemma parse_pair_power: "parse_pair (pw, u) = Some (q, t, l) \<Longrightarrow> q = pw"
  by (auto simp: parse_pair_def)

lemma previous_fold:
  assumes "plain done" "\<forall>(pw, u) \<in> set pus. CHR ''-'' \<notin> set pw"
    "distinct (done @ List.map_filter parse_pair pus)"
  shows "foldl (\<lambda>tbl (pw, u). record_previous cd pw tbl u) (table_of cd done) pus
           = table_of cd (done @ List.map_filter parse_pair pus)"
  using assms
proof (induction pus arbitrary: "done")
  case Nil
  then show ?case by (simp add: map_filter_simps)
next
  case (Cons p pus)
  obtain pw u where p: "p = (pw, u)" by (cases p)
  from Cons.prems(2) have hp: "CHR ''-'' \<notin> set pw" and rest: "\<forall>(pw, u) \<in> set pus. CHR ''-'' \<notin> set pw"
    by (auto simp: p)
  show ?case
  proof (cases "unit_match u")
    case None
    then have pp: "parse_pair (pw, u) = None" by (simp add: parse_pair_def)
    from Cons.IH[OF Cons.prems(1) rest] Cons.prems(3) pp None show ?thesis
      by (simp add: p map_filter_simps record_previous_def)
  next
    case (Some tl)
    obtain ty loc where tl: "tl = (ty, loc)" by (cases tl)
    have pp: "parse_pair (pw, u) = Some (pw, ty, loc)" using Some tl by (simp add: parse_pair_def)
    from Cons.prems(3) pp have fresh: "(pw, ty, loc) \<notin> set done"
      and d': "distinct ((done @ [(pw, ty, loc)]) @ List.map_filter parse_pair pus)"
      by (auto simp: p map_filter_simps)
    have pl: "plain (done @ [(pw, ty, loc)])" using Cons.prems(1) hp by simp
    have step: "record_previous cd pw (table_of cd done) u = table_of cd (done @ [(pw, ty, loc)])"
      using key_not_in_table[OF Cons.prems(1) hp fresh, of cd] Some tl
      by (simp add: record_previous_def obj_assign_fresh)
    from Cons.IH[OF pl rest d'] step pp show ?thesis
      by (simp add: p map_filter_simps)
  qed
qed

lemma claim_first_rest: "claim_first pw ty us = Some (l, rest) \<Longrightarrow> set rest \<subseteq> set us"
proof (induction us arbitrary: rest)
  case Nil
  then show ?case by simp
next
  case (Cons a us)
  obtain q t l0 where a: "a = (q, t, l0)" by (cases a)
  show ?case
  proof (cases "q = pw \<and> t = ty")
    case True
    with Cons.prems show ?thesis by (auto simp: a)
  next
    case False
    with Cons.prems obtain r where r: "claim_first pw ty us = Some (l, r)" "rest = (q, t, l0) # r"
      by (auto simp: a)
    from Cons.IH[OF r(1)] r(2) show ?thesis by (auto simp: a)
  qed
qed

lemma claim_first_plain: "claim_first pw ty us = Some (l, rest) \<Longrightarrow> plain us \<Longrightarrow> plain rest"
  using claim_first_rest[of pw ty us l rest] by (auto simp: plain_def)

lemma take_match_table:
  assumes "plain us" "CHR ''-'' \<notin> set pw"
  shows "take_match (key_prefix pw ty) (table_of cd us) =
           map_option (\<lambda>(l', rest). (getProvincePosition cd l', table_of cd rest)) (claim_first pw ty us)"
  using assms(1)
proof (induction us)
  case Nil
  then show ?case by simp
next
  case (Cons a us)
  obtain q t l where a: "a = (q, t, l)" by (cases a)
  from Cons.prems have hq: "CHR ''-'' \<notin> set q" and pu: "plain us" by (simp_all add: a)
  show ?case
    using Cons.IH[OF pu] startsWith_key[OF hq assms(2), of t l ty]
    by (auto simp: a option.map_comp comp_def case_prod_beta split: option.splits)
qed



lemma plan_fold_refines:
  assumes "acc_table acc = table_of cd un" "plain un" "\<forall>(pw, u) \<in> set pus. CHR ''-'' \<notin> set pw"
  shows "map (\<lambda>a. (startPos a, endPos a)) (acc_anims (foldl (\<lambda>a (pw, u). plan_unit cd t pw a u) acc pus))
           = map (\<lambda>a. (startPos a, endPos a)) (acc_anims acc)
             @ map (\<lambda>p. (plan_from p, plan_to p)) (greedy_plan cd un (List.map_filter parse_pair pus)) \<and>
         acc_found (foldl (\<lambda>a (pw, u). plan_unit cd t pw a u) acc pus)
           = acc_found acc @ map (\<lambda>p. plan_kind p = Move) (greedy_plan cd un (List.map_filter parse_pair pus))"
  using assms
proof (induction pus arbitrary: acc un)
  case Nil
  then show ?case by (simp add: map_filter_simps)
next
  case (Cons p pus)
  obtain pw u where p: "p = (pw, u)" by (cases p)
  from Cons.prems(3) have hp: "CHR ''-'' \<notin> set pw" and rest: "\<forall>(pw, u) \<in> set pus. CHR ''-'' \<notin> set pw"
    by (auto simp: p)
  show ?case
  proof (cases "unit_match u")
    case None
    then have pp: "parse_pair (pw, u) = None" by (simp add: parse_pair_def)
    from None have pu: "plan_unit cd t pw acc u = acc" by (simp add: plan_unit_def)
    from Cons.IH[OF Cons.prems(1,2) rest] pp pu show ?thesis
      by (simp add: p map_filter_simps)
  next
    case (Some tl)
    obtain ty loc where tl: "tl = (ty, loc)" by (cases tl)
    have pp: "parse_pair (pw, u) = Some (pw, ty, loc)" using Some tl by (simp add: parse_pair_def)
    note tm = take_match_table[OF Cons.prems(2) hp, of ty cd]
    let ?acc' = "plan_unit cd t pw acc u"
    show ?thesis
    proof (cases "claim_first pw ty un")
      case None
      have tbl: "acc_table ?acc' = table_of cd un"
        using Some tl tm None Cons.prems(1) by (simp add: plan_unit_def Let_def)
      have hd: "map (\<lambda>a. (startPos a, endPos a)) (acc_anims ?acc') =
          map (\<lambda>a. (startPos a, endPos a)) (acc_anims acc) @
            [(\<lparr>pos_x = pos_x (getProvincePosition cd loc), pos_y = - 20, pos_z = pos_z (getProvincePosition cd loc)\<rparr>,
              getProvincePosition cd loc)]"
        "acc_found ?acc' = acc_found acc @ [False]"
        using Some tl tm None Cons.prems(1) by (simp_all add: plan_unit_def Let_def)
      from Cons.IH[OF tbl Cons.prems(2) rest] hd pp None show ?thesis
        by (simp add: p map_filter_simps Let_def)
    next
      case (Some lr)
      obtain l' r where lr: "lr = (l', r)" by (cases lr)
      have tbl: "acc_table ?acc' = table_of cd r"
        using \<open>unit_match u = Some tl\<close> tl tm Some lr Cons.prems(1) by (simp add: plan_unit_def Let_def)
      have pr: "plain r" using claim_first_plain[of pw ty un l' r] Some lr Cons.prems(2) by simp
      have hd: "map (\<lambda>a. (startPos a, endPos a)) (acc_anims ?acc') =
          map (\<lambda>a. (startPos a, endPos a)) (acc_anims acc) @
            [(getProvincePosition cd l', getProvincePosition cd loc)]"
        "acc_found ?acc' = acc_found acc @ [True]"
        using \<open>unit_match u = Some tl\<close> tl tm Some lr Cons.prems(1) by (simp_all add: plan_unit_def Let_def)
      from Cons.IH[OF tbl pr rest] hd pp Some lr show ?thesis
        by (simp add: p map_filter_simps Let_def)
    qed
  qed
qed

lemma hyphen_free_pairs: "hyphen_free entries \<Longrightarrow> \<forall>(pw, u) \<in> set (unit_pairs entries). CHR ''-'' \<notin> set pw"
  by (auto simp: hyphen_free_def unit_pairs_def list_all_iff)

lemma previousUnitPositions_table:
  assumes "hyphen_free prv" "distinct (parsed_units prv)"
  shows "previousUnitPositions cd prv = table_of cd (parsed_units prv)"
  using previous_fold[of "[]" "unit_pairs prv" cd] assms hyphen_free_pairs[OF assms(1)]
  by (simp add: previousUnitPositions_def foldl_nested_flat parsed_units_def)

lemma plain_parsed: "hyphen_free entries \<Longrightarrow> plain (parsed_units entries)"
proof -
  assume "hyphen_free entries"
  then have h: "\<forall>(pw, u) \<in> set (unit_pairs entries). CHR ''-'' \<notin> set pw" by (rule hyphen_free_pairs)
  have "plain (List.map_filter parse_pair pus)" if "\<forall>(pw, u) \<in> set pus. CHR ''-'' \<notin> set pw" for pus
    using that
  proof (induction pus)
    case Nil
    then show ?case by (simp add: map_filter_simps)
  next
    case (Cons p pus)
    obtain pw u where p: "p = (pw, u)" by (cases p)
    from Cons show ?case
      by (cases "unit_match u") (auto simp: p map_filter_simps parse_pair_def)
  qed
  with h show ?thesis by (simp add: parsed_units_def)
qed

lemma plan_units_refines:
  assumes "hyphen_free prv" "hyphen_free cur" "distinct (parsed_units prv)"
  shows "map (\<lambda>a. (startPos a, endPos a)) (acc_anims (plan_units cd t cur prv))
           = map (\<lambda>p. (plan_from p, plan_to p)) (greedy_plan cd (parsed_units prv) (parsed_units cur)) \<and>
         acc_found (plan_units cd t cur prv)
           = map (\<lambda>p. plan_kind p = Move) (greedy_plan cd (parsed_units prv) (parsed_units cur))"
proof -
  let ?acc = "\<lparr>acc_table = previousUnitPositions cd prv, acc_anims = [], acc_meshes = [], acc_found = []\<rparr>"
  have t: "acc_table ?acc = table_of cd (parsed_units prv)"
    using previousUnitPositions_table[OF assms(1,3)] by simp
  from plan_fold_refines[OF t plain_parsed[OF assms(1)] hyphen_free_pairs[OF assms(2)], of t]
  show ?thesis
    by (simp add: plan_units_def foldl_nested_flat parsed_units_def)
qed


section \<open>Greedy matching of units\<close>

text \<open>
  A previous phase lists the army in Paris twice; the new phase has armies in Burgundy
  and Marseilles.  The table has one Paris entry, so the second army is spawned, where
  first-unclaimed matching over the listed units moves both.
\<close>

theorem repeated_previous_unit_counterexample:
  "acc_found (plan_units ex_coordinates 0 (units ex_two) (units ex_twice)) = [True, False] \<and>
   map is_move (greedy_plan ex_coordinates (parsed_units (units ex_twice)) (parsed_units (units ex_two)))
     = [True, True] \<and>
   map anim_span (unitAnimations (animateUnitsForPhase ex_two ex_twice (page_init ex_coordinates)))
     \<noteq> map planned_span
         (greedy_plan ex_coordinates (parsed_units (units ex_twice)) (parsed_units (units ex_two)))"
  by (simp add: ex_coordinates_def ex_two_def ex_twice_def unit_defs
      parsed_units_def unit_pairs_def parse_pair_def map_filter_simps hyphen_free_def animateUnitsForPhase_def page_init_def
      anim_span_def planned_span_def is_move_def Let_def)

text \<open>
  C7, as the code has it.  Previous units are kept in a table with one key
  \<open>power-type-location\<close> each, so previous units that agree in power, type and
  location are one entry.  When the previous phase has no such repetition and no power
  name contains a hyphen, the planner pairs every matching unit string of the new phase
  with the first unclaimed previous unit of the same power and type in iteration
  order: the animation runs from the resolved coordinate of that unit to the resolved
  coordinate of the new one; without a match it starts at the target's \<open>x\<close> and \<open>z\<close>
  with \<open>y = -20\<close>.
\<close>

theorem planner_pairs_first_unclaimed:
  assumes "hyphen_free (units prv)" "hyphen_free (units cur)" "distinct (parsed_units (units prv))"
  shows "map anim_span (unitAnimations (animateUnitsForPhase cur prv s))
           = map planned_span
               (greedy_plan (coordinateData s) (parsed_units (units prv)) (parsed_units (units cur))) \<and>
         acc_found (plan_units (coordinateData s) (now s) (units cur) (units prv))
           = map is_move
               (greedy_plan (coordinateData s) (parsed_units (units prv)) (parsed_units (units cur)))"
proof -
  have f: "anim_span = (\<lambda>a. (startPos a, endPos a))" "planned_span = (\<lambda>p. (plan_from p, plan_to p))"
    "is_move = (\<lambda>p. plan_kind p = Move)"
    by (auto simp: anim_span_def planned_span_def is_move_def)
  show ?thesis
    using plan_units_refines[OF assms, of "coordinateData s" "now s"]
    by (simp add: animateUnitsForPhase_def Let_def f)
qed

theorem planner_pairs_first_unclaimed_witness:
  "hyphen_free (units ex_lon) \<and> hyphen_free (units ex_nth) \<and> distinct (parsed_units (units ex_lon)) \<and>
   map anim_span (unitAnimations (animateUnitsForPhase ex_nth ex_lon (page_init ex_coordinates)))
     = [(\<lparr>pos_x = 100, pos_y = 10, pos_z = Some 110\<rparr>, \<lparr>pos_x = 150, pos_y = 10, pos_z = Some 60\<rparr>)] \<and>
   acc_found (plan_units ex_coordinates 0 (units ex_nth) (units ex_lon)) = [True]"
proof -
  have h: "hyphen_free (units ex_lon)" "hyphen_free (units ex_nth)" "distinct (parsed_units (units ex_lon))"
    by (simp_all add: ex_coordinates_def ex_lon_def ex_nth_def unit_defs
        parsed_units_def unit_pairs_def parse_pair_def map_filter_simps hyphen_free_def)
  have g: "greedy_plan ex_coordinates (parsed_units (units ex_lon)) (parsed_units (units ex_nth))
      = [\<lparr>plan_kind = Move, plan_from = \<lparr>pos_x = 100, pos_y = 10, pos_z = Some 110\<rparr>,
           plan_to = \<lparr>pos_x = 150, pos_y = 10, pos_z = Some 60\<rparr>\<rparr>]"
    by (simp add: ex_coordinates_def ex_lon_def ex_nth_def unit_defs
        parsed_units_def unit_pairs_def parse_pair_def map_filter_simps hyphen_free_def Let_def)
  from planner_pairs_first_unclaimed[OF h, of "page_init ex_coordinates"] g h show ?thesis
    by (simp add: page_init_def planned_span_def is_move_def)
qed

section \<open>How many units the planner animates\<close>

text \<open>
  A phase that lists the units \<^verbatim>\<open>A PAR\<close> and \<^verbatim>\<open>PAR\<close> gets one animation for two listed units.
\<close>

theorem malformed_unit_counterexample:
  "length (unitAnimations (animateUnitsForPhase ex_malformed ex_phase1 (page_init ex_coordinates))) = 1 \<and>
   length (concat (map snd (units ex_malformed))) = 2 \<and>
   length (unitAnimations (animateUnitsForPhase ex_malformed ex_phase1 (page_init ex_coordinates)))
     \<noteq> length (concat (map snd (units ex_malformed)))"
  by (simp add: ex_coordinates_def ex_malformed_def ex_phase1_def unit_defs animateUnitsForPhase_def page_init_def Let_def)

text \<open>
  C8, as the code has it.  After \<^verbatim>\<open>animateUnitsForPhase\<close> the animation list has one
  entry, and the mesh list one new mesh, for every unit string of the new phase that
  matches the pattern; a string that does not match is passed over.  When every unit
  string matches, this is the total number of units of the phase.
\<close>

theorem planner_animates_matching_units:
  "length (unitAnimations (animateUnitsForPhase cur prv s))
     = length (filter (\<lambda>u. unit_match u \<noteq> None) (concat (map snd (units cur)))) \<and>
   (\<exists>ms. unitMeshes (animateUnitsForPhase cur prv s) = unitMeshes s @ ms \<and>
         length ms = length (filter (\<lambda>u. unit_match u \<noteq> None) (concat (map snd (units cur))))) \<and>
   (list_all (\<lambda>u. unit_match u \<noteq> None) (concat (map snd (units cur))) \<longrightarrow>
      length (unitAnimations (animateUnitsForPhase cur prv s)) = length (concat (map snd (units cur))))"
proof -
  let ?n = "length (filter (\<lambda>u. unit_match u \<noteq> None) (concat (map snd (units cur))))"
  have c: "length (acc_anims (plan_units (coordinateData s) (now s) (units cur) (units prv))) = ?n"
    "length (acc_meshes (plan_units (coordinateData s) (now s) (units cur) (units prv))) = ?n"
    using plan_units_counts[of "coordinateData s" "now s" "units cur" "units prv"]
    by (simp_all add: well_formed_count_def)
  have f: "list_all (\<lambda>u. unit_match u \<noteq> None) (concat (map snd (units cur))) \<Longrightarrow>
      ?n = length (concat (map snd (units cur)))"
    by (simp add: list_all_iff)
  show ?thesis using c f by (simp add: animateUnitsForPhase_def Let_def)
qed

theorem planner_animates_matching_units_witness:
  "list_all (\<lambda>u. unit_match u \<noteq> None) (concat (map snd (units ex_nth))) \<and>
   length (unitAnimations (animateUnitsForPhase ex_nth ex_lon (page_init ex_coordinates))) = 1 \<and>
   length (concat (map snd (units ex_nth))) = 1"
proof -
  have h: "list_all (\<lambda>u. unit_match u \<noteq> None) (concat (map snd (units ex_nth)))"
    by (simp add: ex_nth_def unit_defs)
  from planner_animates_matching_units[of ex_nth ex_lon "page_init ex_coordinates"] h
  have "length (unitAnimations (animateUnitsForPhase ex_nth ex_lon (page_init ex_coordinates)))
      = length (concat (map snd (units ex_nth)))"
    by blast
  with h show ?thesis by (simp add: ex_nth_def)
qed

section \<open>Two advance timeouts pending at once\<close>

text \<open>
  C2 fails on the code.  The speed selector clears the pending handle before it arms a
  new advance, but the two completion paths assign \<^verbatim>\<open>playbackTimer\<close> without clearing it.
  At the speed 2000 the reveal chain of the first phase ends at 6000 ms and arms an
  advance due at 8000; the frame at 6016 starts the unit animation; the frame at 7516
  finds it complete and arms a second advance due at 9516 while the first is pending.
\<close>

theorem completion_paths_arm_two_advances:
  "on_time ex_slow ex_loaded \<and>
   map_option isPlaying (run ex_slow ex_loaded) = Some True \<and>
   map_option now (run ex_slow ex_loaded) = Some 7516 \<and>
   map_option playbackTimer (run ex_slow ex_loaded) = Some (Some 3) \<and>
   map_option advance_pending (run ex_slow ex_loaded) =
     Some [\<lparr>handle = 2, due = 8000, callback = AdvanceCb\<rparr>,
           \<lparr>handle = 3, due = 9516, callback = AdvanceCb\<rparr>]"
  by (simp add: ex_slow_def ex_loaded_def ex_phase0_def ex_phase1_def ex_hi_def page_defs chat_defs unit_defs timer_defs Let_def
      event_on_time_def advance_pending_def)

section \<open>Unit animations before the reveal is over\<close>

text \<open>
  C3 fails on the code.  The lock \<^verbatim>\<open>messagesPlaying\<close> is one flag for all reveal chains.
  After two steps forward (at 0 and 400 ms) and the start of playback (at 800 ms), the
  chain of the second phase ends at 1500 ms and clears the flag; the frame at 1510
  creates the unit animation of the third phase; the chain of the third phase reveals
  its second message at 1900.
\<close>

theorem stale_chain_unlocks_animations:
  "on_time (ex_overtake @ [Wait 390, Fire 2]) ex_loaded3 \<and>
   map_option isPlaying (run ex_overtake ex_loaded3) = Some True \<and>
   map_option currentPhaseIndex (run ex_overtake ex_loaded3) = Some 2 \<and>
   map_option animation_starts (run ex_overtake ex_loaded3) = Some [1510] \<and>
   map_option effects (run ex_overtake ex_loaded3) = Some [HeadNod ex_hi, HeadNod ex_reply] \<and>
   map_option animation_starts (run (ex_overtake @ [Wait 390, Fire 2]) ex_loaded3) = Some [1510] \<and>
   map_option effects (run (ex_overtake @ [Wait 390, Fire 2]) ex_loaded3)
     = Some [HeadNod ex_hi, HeadNod ex_reply, HeadNod ex_offer]"
  by (simp add: ex_overtake_def ex_loaded3_def ex_phase0_def ex_phase1_def ex_hi_def ex_talk_def ex_reply_def
      ex_offer_def page_defs chat_defs unit_defs timer_defs Let_def event_on_time_def animation_starts_def)

section \<open>Pausing\<close>

lemma togglePlayback_off:
  assumes "gameData s = Some phases" "1 < length phases" "isPlaying s"
  shows "togglePlayback s =
           Inr ((if timer_set (playbackTimer s)
                 then (clearTimeout (the (playbackTimer s)) s)\<lparr>playbackTimer := None\<rparr> else s)
                \<lparr>isPlaying := False, unitAnimations := [], messagesPlaying := False,
                 prevBtn_disabled := False, nextBtn_disabled := False\<rparr>)"
  using assms by (simp add: togglePlayback_def Let_def clearTimeout_def)

text \<open>
  Playback is started on a phase with two messages and paused after one second.  The
  timeouts of the reveal chain are armed without keeping their handles, and the pause
  cancels none of them: the next one still fires at 1500 ms and reveals the second
  message while playback is off.
\<close>

lemma paused_chain_still_reveals:
  "on_time (ex_pause @ [Fire 1]) ex_loaded_talk \<and>
   map_option isPlaying (run ex_pause ex_loaded_talk) = Some False \<and>
   map_option effects (run ex_pause ex_loaded_talk) = Some [HeadNod ex_reply] \<and>
   map_option isPlaying (run (ex_pause @ [Fire 1]) ex_loaded_talk) = Some False \<and>
   map_option effects (run (ex_pause @ [Fire 1]) ex_loaded_talk) = Some [HeadNod ex_reply, HeadNod ex_offer]"
  by (simp add: ex_pause_def ex_loaded_talk_def ex_talk_def ex_reply_def ex_offer_def ex_phase1_def
      page_defs chat_defs unit_defs timer_defs Let_def event_on_time_def)

text \<open>
  C4 fails on the code.  \<^verbatim>\<open>togglePlayback\<close> cancels the pending advance by
  \<^verbatim>\<open>clearTimeout(playbackTimer)\<close>, but \<^verbatim>\<open>playbackTimer\<close> holds only the handle armed last.
  In the slow playback above the reveal completion armed an advance due at 8000 ms and
  the animation completion a second one, whose handle replaced the first in
  \<^verbatim>\<open>playbackTimer\<close>.  The pause at 7516 ms cancels the second, empties the animation list
  and clears \<^verbatim>\<open>messagesPlaying\<close>; the first stays pending, fires at 8000 ms, and
  \<^verbatim>\<open>advanceToNextPhase\<close> runs while playback is off, moving the page from phase 0 to
  phase 1.
\<close>

theorem orphaned_advance_runs_while_paused:
  "on_time (ex_slow_pause @ [Wait 484, Fire 2]) ex_loaded \<and>
   map_option isPlaying (run ex_slow ex_loaded) = Some True \<and>
   map_option playbackTimer (run ex_slow ex_loaded) = Some (Some 3) \<and>
   map_option isPlaying (run ex_slow_pause ex_loaded) = Some False \<and>
   map_option now (run ex_slow_pause ex_loaded) = Some 7516 \<and>
   map_option playbackTimer (run ex_slow_pause ex_loaded) = Some None \<and>
   map_option unitAnimations (run ex_slow_pause ex_loaded) = Some [] \<and>
   map_option messagesPlaying (run ex_slow_pause ex_loaded) = Some False \<and>
   map_option timers (run ex_slow_pause ex_loaded)
     = Some [\<lparr>handle = 2, due = 8000, callback = AdvanceCb\<rparr>] \<and>
   map_option advance_runs (run ex_slow_pause ex_loaded) = Some 0 \<and>
   map_option currentPhaseIndex (run ex_slow_pause ex_loaded) = Some 0 \<and>
   map_option isPlaying (run (ex_slow_pause @ [Wait 484, Fire 2]) ex_loaded) = Some False \<and>
   map_option now (run (ex_slow_pause @ [Wait 484, Fire 2]) ex_loaded) = Some 8000 \<and>
   map_option advance_runs (run (ex_slow_pause @ [Wait 484, Fire 2]) ex_loaded) = Some 1 \<and>
   map_option currentPhaseIndex (run (ex_slow_pause @ [Wait 484, Fire 2]) ex_loaded) = Some 1"
  by (simp add: ex_slow_pause_def ex_slow_def ex_loaded_def ex_phase0_def ex_phase1_def ex_hi_def
      page_defs chat_defs unit_defs timer_defs Let_def event_on_time_def advance_runs_def)

end
